theory Spec2Isabelle
  imports Complex_Main
begin

unbundle bit_operations_syntax

section \<open>Numbers\<close>

text \<open>
  A number of the source is an IEEE 754 double: a finite value, which is a rational, an
  infinity, or NaN (the sign of a zero is not kept). Arithmetic computes the exact
  result and rounds it to the nearest double, ties to the even mantissa: 53 bits of
  mantissa, the smallest spacing \<open>2 ^ - 1074\<close>, and an infinity from \<open>2 ^ 1024\<close> on.
  \<open>bit_length\<close> counts the binary digits of a natural number, \<open>exponent\<close> is the
  exponent of the leading bit of a positive rational, and \<open>round_half_even a b\<close> is the
  integer nearest to \<open>a / b\<close>.
\<close>

datatype number = Finite rat | PlusInfinity | MinusInfinity | NaN

fun bit_length :: "nat \<Rightarrow> nat" where
  "bit_length n = (if n = 0 then 0 else Suc (bit_length (n div 2)))"

declare bit_length.simps [simp del]

definition exponent :: "rat \<Rightarrow> int" where
  "exponent q =
     (if 2 powi (int (bit_length (nat (fst (quotient_of q))))
                 - int (bit_length (nat (snd (quotient_of q))))) \<le> q
      then int (bit_length (nat (fst (quotient_of q))))
           - int (bit_length (nat (snd (quotient_of q))))
      else int (bit_length (nat (fst (quotient_of q))))
           - int (bit_length (nat (snd (quotient_of q)))) - 1)"

definition round_half_even :: "int \<Rightarrow> int \<Rightarrow> int" where
  "round_half_even a b =
     (if 2 * (a mod b) < b then a div b
      else if b < 2 * (a mod b) then a div b + 1
      else if even (a div b) then a div b else a div b + 1)"

definition ulp_exponent :: "rat \<Rightarrow> int" where
  "ulp_exponent q = max (exponent \<bar>q\<bar> - 52) (- 1074)"

definition mantissa :: "rat \<Rightarrow> int" where
  "mantissa q =
     (if 0 \<le> ulp_exponent q
      then round_half_even (fst (quotient_of q))
             (snd (quotient_of q) * 2 ^ nat (ulp_exponent q))
      else round_half_even (fst (quotient_of q) * 2 ^ nat (- ulp_exponent q))
             (snd (quotient_of q)))"

definition nearest :: "rat \<Rightarrow> rat" where
  "nearest q = of_int (mantissa q) * 2 powi ulp_exponent q"

definition round_double :: "rat \<Rightarrow> number" where
  "round_double q =
     (if q = 0 then Finite 0
      else if 2 ^ 1024 \<le> nearest q then PlusInfinity
      else if nearest q \<le> - (2 ^ 1024) then MinusInfinity
      else Finite (nearest q))"

text \<open>The numbers that are doubles: rounding leaves them as they are.\<close>

definition is_double :: "number \<Rightarrow> bool" where
  "is_double x = (case x of Finite q \<Rightarrow> round_double q = Finite q | _ \<Rightarrow> True)"

text \<open>Subtraction, multiplication and \<^verbatim>\<open><\<close> on numbers.\<close>

fun js_sub :: "number \<Rightarrow> number \<Rightarrow> number" where
  "js_sub NaN y = NaN"
| "js_sub x NaN = NaN"
| "js_sub (Finite a) (Finite b) = round_double (a - b)"
| "js_sub (Finite a) PlusInfinity = MinusInfinity"
| "js_sub (Finite a) MinusInfinity = PlusInfinity"
| "js_sub PlusInfinity PlusInfinity = NaN"
| "js_sub PlusInfinity y = PlusInfinity"
| "js_sub MinusInfinity MinusInfinity = NaN"
| "js_sub MinusInfinity y = MinusInfinity"

fun js_mul :: "number \<Rightarrow> number \<Rightarrow> number" where
  "js_mul NaN y = NaN"
| "js_mul x NaN = NaN"
| "js_mul (Finite a) (Finite b) = round_double (a * b)"
| "js_mul (Finite a) PlusInfinity =
     (if a = 0 then NaN else if 0 < a then PlusInfinity else MinusInfinity)"
| "js_mul (Finite a) MinusInfinity =
     (if a = 0 then NaN else if 0 < a then MinusInfinity else PlusInfinity)"
| "js_mul PlusInfinity (Finite b) =
     (if b = 0 then NaN else if 0 < b then PlusInfinity else MinusInfinity)"
| "js_mul MinusInfinity (Finite b) =
     (if b = 0 then NaN else if 0 < b then MinusInfinity else PlusInfinity)"
| "js_mul PlusInfinity PlusInfinity = PlusInfinity"
| "js_mul PlusInfinity MinusInfinity = MinusInfinity"
| "js_mul MinusInfinity PlusInfinity = MinusInfinity"
| "js_mul MinusInfinity MinusInfinity = PlusInfinity"

fun js_less :: "number \<Rightarrow> number \<Rightarrow> bool" where
  "js_less NaN y = False"
| "js_less x NaN = False"
| "js_less (Finite a) (Finite b) = (a < b)"
| "js_less (Finite a) PlusInfinity = True"
| "js_less MinusInfinity (Finite b) = True"
| "js_less MinusInfinity PlusInfinity = True"
| "js_less x y = False"

section \<open>Data model\<close>

text \<open>
  The remote watch session of \<^verbatim>\<open>Tablo.PlayerSession\<close> (src/tablo.ts). The supervisor
  reads the token (through the device calls), the lease \<^verbatim>\<open>keepalive\<close>, a number, and
  the \<^verbatim>\<open>playlist_url\<close>; \<^verbatim>\<open>expires\<close> is kept as a count of milliseconds, the video
  details and the channel object are never read by the supervisor's lifecycle and are
  left out.
\<close>

record player_session =
  token :: string
  expires :: int
  keepalive :: number
  playlist_url :: string

text \<open>The four notifications of \<^verbatim>\<open>LiveTranscoder\<close> (the overloads of \<^verbatim>\<open>on\<close>).\<close>

datatype notification = Ready | Error string | Exit "int option" | Stopped

text \<open>
  The local filesystem as far as the supervisor touches it: the paths that exist, and
  the paths whose removal raises (a permission or a busy file), which is the case the
  \<^verbatim>\<open>try { ... } catch { }\<close> around \<^verbatim>\<open>rmSync\<close> is written for.
\<close>

record filesystem =
  paths :: "string list"
  undeletable :: "string list"

text \<open>
  A timer of the class \<^verbatim>\<open>Timer\<close>. The class comes from the package
  \<^verbatim>\<open>@gibme/timer\<close>, which is not part of the repository: its constructor takes the
  interval in milliseconds and an optional flag \<^verbatim>\<open>autoStart\<close> that is false when left
  out, and a timer that was not started is paused and does not tick.
\<close>

record timer_handle =
  interval :: number
  paused :: bool

definition new_Timer :: "number \<Rightarrow> timer_handle" where
  "new_Timer ms = \<lparr>interval = ms, paused = True\<rparr>"

text \<open>What a function of the source throws.\<close>

datatype exn =
    Failed_to_retrieve_device_information
  | Remove_failed
  | Unhandled_error string

text \<open>
  The fields of a \<^verbatim>\<open>LiveTranscoder\<close> object (src/live_transcoder.ts). The process handle
  is the number of the spawn that created it. The field \<^verbatim>\<open>id\<close> is called \<open>id_str\<close>
  here.
\<close>

record supervisor =
  id_str :: string
  device :: nat
  channel_id :: string
  output_path :: string
  filename :: string
  auto_restart :: bool
  ffmpeg_path :: string
  full_path :: string
  use_count :: int
  active :: bool
  session :: "player_session option"
  process :: "nat option"
  timer :: "timer_handle option"

text \<open>
  A supervisor together with everything around it that its callbacks act on: the
  filesystem, the processes spawned so far (command and arguments, the handle of a
  process is its index) and which of them have neither exited nor failed, the handles
  that were sent a kill signal, what was written to the processes' input, the requests
  sent to the device, the timers constructed and how many timers are ticking, the
  callbacks that are scheduled, the listeners for \<^verbatim>\<open>'error'\<close> that callers have attached
  to the supervisor with \<^verbatim>\<open>on\<close> and with \<^verbatim>\<open>once\<close>, the notifications delivered to
  listeners, oldest first, and the errors thrown out of a callback of the event loop
  (what becomes of the host process after such an error is not modelled: a later action
  acts on the state that the callback left).
\<close>

record world = supervisor +
  fs :: filesystem
  spawned :: "(string \<times> string list) list"
  running :: "nat list"
  killed :: "nat list"
  stdin_log :: "(nat \<times> string) list"
  watch_requests :: nat
  watch_pending :: nat
  delete_requests :: "string list"
  abort_pending :: nat
  keepalive_requests :: "string list"
  timers_created :: "timer_handle list"
  timers_running :: nat
  checks :: nat
  error_listeners :: nat
  error_once :: nat
  emitted :: "notification list"
  uncaught :: "string list"

section \<open>Strings and paths\<close>

text \<open>
  \<^verbatim>\<open>String.prototype.replace\<close> with a string pattern: the first occurrence only.
\<close>

fun replace_first :: "string \<Rightarrow> string \<Rightarrow> string \<Rightarrow> string" where
  "replace_first pat rep [] = (if pat = [] then rep else [])"
| "replace_first pat rep (c # cs) =
     (if take (length pat) (c # cs) = pat then rep @ drop (length pat) (c # cs)
      else c # replace_first pat rep cs)"

text \<open>The getter \<^verbatim>\<open>relative_path\<close>.\<close>

definition relative_path :: "'a supervisor_scheme \<Rightarrow> string" where
  "relative_path s =
     (if id_str s \<noteq> [] then
        replace_first ''//'' ''/'' (output_path s @ ''/'' @ id_str s @ ''/'' @ filename s)
      else [])"

text \<open>A pattern occurs in a string at a position.\<close>

definition occurs_at :: "string \<Rightarrow> string \<Rightarrow> nat \<Rightarrow> bool" where
  "occurs_at pat s i = (i + length pat \<le> length s \<and> take (length pat) (drop i s) = pat)"

text \<open>
  The calls of \<^verbatim>\<open>fs\<close> that the supervisor makes. A directory holds the paths that
  extend it by a slash. \<^verbatim>\<open>rmSync\<close> is always called with
  \<^verbatim>\<open>{ recursive: true, force: true }\<close>; it returns \<open>None\<close> where it raises.
  \<^verbatim>\<open>mkdirSync\<close> is taken to succeed; \<open>create\<close> is a path coming into existence,
  by \<^verbatim>\<open>mkdirSync\<close> or by the external tool writing a file.
\<close>

definition existsSync :: "string \<Rightarrow> filesystem \<Rightarrow> bool" where
  "existsSync p f = (p \<in> set (paths f))"

definition under :: "string \<Rightarrow> string \<Rightarrow> bool" where
  "under d p = (p = d \<or> take (length d + 1) p = d @ ''/'')"

definition rmSync :: "string \<Rightarrow> filesystem \<Rightarrow> filesystem option" where
  "rmSync p f =
     (if p \<in> set (undeletable f) then None
      else Some (f\<lparr>paths := filter (\<lambda>q. \<not> under p q) (paths f)\<rparr>))"

definition create :: "string \<Rightarrow> filesystem \<Rightarrow> filesystem" where
  "create p f = (if p \<in> set (paths f) then f else f\<lparr>paths := p # paths f\<rparr>)"

definition mkdirSync :: "string \<Rightarrow> filesystem \<Rightarrow> filesystem" where
  "mkdirSync p f = create p f"

section \<open>The supervisor (src/live_transcoder.ts)\<close>

text \<open>
  \<^verbatim>\<open>this.emit\<close>, of Node's \<^verbatim>\<open>EventEmitter\<close>. An \<^verbatim>\<open>'error'\<close> that no listener is
  attached for is \<open>unhandled\<close>: the emitter throws it (\<open>None\<close>). Otherwise the
  notification is delivered to the listeners, and the listeners attached with
  \<^verbatim>\<open>once\<close> for it are gone afterwards. An event other than \<^verbatim>\<open>'error'\<close> is never
  unhandled, so for those \<^verbatim>\<open>this.emit\<close> is \<open>deliver\<close>.
\<close>

definition unhandled :: "notification \<Rightarrow> world \<Rightarrow> bool" where
  "unhandled e w =
     (case e of
        Error msg \<Rightarrow> error_listeners w = 0 \<and> error_once w = 0
      | _ \<Rightarrow> False)"

definition deliver :: "notification \<Rightarrow> world \<Rightarrow> world" where
  "deliver e w =
     w\<lparr>emitted := emitted w @ [e],
       error_once := (case e of Error msg \<Rightarrow> 0 | _ \<Rightarrow> error_once w)\<rparr>"

definition emit :: "notification \<Rightarrow> world \<Rightarrow> world option" where
  "emit e w = (if unhandled e w then None else Some (deliver e w))"

text \<open>The argument vector built in \<^verbatim>\<open>start_ffmpeg\<close>.\<close>

definition ffmpeg_args :: "string \<Rightarrow> string \<Rightarrow> string list" where
  "ffmpeg_args url out =
     [''-re'', ''-i'', url,
      ''-c:v'', ''libx264'', ''-preset'', ''veryfast'', ''-tune'',
      ''zerolatency'', ''-crf'', ''23'', ''-g'', ''48'',
      ''-keyint_min'', ''48'', ''-sc_threshold'', ''0'', ''-ac'',
      ''2'', ''-c:a'', ''aac'', ''-b:a'', ''128k'',
      ''-f'', ''hls'', ''-hls_time'', ''4'', ''-hls_list_size'',
      ''6'', ''-hls_flags'', ''delete_segments+program_date_time+append_list'',
      out]"

text \<open>
  \<^verbatim>\<open>start_ffmpeg\<close>: without a session nothing is spawned; otherwise a process is
  spawned, its handle replaces the one in \<^verbatim>\<open>this.process\<close>, and the two handlers
  \<open>on_error\<close> and \<open>on_exit\<close> below are attached to it.
\<close>

definition start_ffmpeg :: "world \<Rightarrow> bool \<times> world" where
  "start_ffmpeg w =
     (case session w of
        None \<Rightarrow> (False, w)
      | Some sess \<Rightarrow>
          (True, w\<lparr>process := Some (length (spawned w)),
                    spawned := spawned w @ [(ffmpeg_path w, ffmpeg_args (playlist_url sess) (full_path w))],
                    running := running w @ [length (spawned w)]\<rparr>))"

text \<open>
  The listener of \<^verbatim>\<open>'stopped'\<close> on the inner emitter: the output directory is removed
  if it exists, an error of the removal is swallowed, and \<^verbatim>\<open>'stopped'\<close> is emitted.
  \<^verbatim>\<open>path.resolve\<close> is the parameter \<open>resolve\<close>.
\<close>

definition stopped_handler :: "(string \<Rightarrow> string \<Rightarrow> string) \<Rightarrow> world \<Rightarrow> world" where
  "stopped_handler resolve w =
     (let current_path = resolve (output_path w) (''./'' @ id_str w);
          w1 = (if existsSync current_path (fs w) then
                  (case rmSync current_path (fs w) of
                     None \<Rightarrow> w
                   | Some f \<Rightarrow> w\<lparr>fs := f\<rparr>)
                else w)
      in deliver Stopped w1)"

text \<open>
  The listener of \<^verbatim>\<open>'abort'\<close> is an async function. \<open>abort_handler\<close> is what runs when
  the event is emitted, up to the \<^verbatim>\<open>await\<close> of \<^verbatim>\<open>deleteSession\<close>, which is only reached
  when a session is recorded; \<open>abort_finish\<close> is the rest, and \<open>abort_resume\<close> runs it
  when the device has answered (the answer itself is not looked at).
\<close>

definition abort_finish :: "(string \<Rightarrow> string \<Rightarrow> string) \<Rightarrow> world \<Rightarrow> world" where
  "abort_finish resolve w = stopped_handler resolve (w\<lparr>active := False\<rparr>)"

definition abort_handler :: "(string \<Rightarrow> string \<Rightarrow> string) \<Rightarrow> world \<Rightarrow> world" where
  "abort_handler resolve w =
     (case process w of
        None \<Rightarrow> w
      | Some p \<Rightarrow>
          (let w1 = w\<lparr>stdin_log := stdin_log w @ [(p, ''q'')],
                       killed := (if p \<in> set (killed w) then killed w else killed w @ [p]),
                       process := None,
                       timer := None,
                       timers_running :=
                         (case timer w of
                            None \<Rightarrow> timers_running w
                          | Some t \<Rightarrow>
                              if paused t then timers_running w else timers_running w - 1)\<rparr>
           in case session w1 of
                Some sess \<Rightarrow>
                  w1\<lparr>delete_requests := delete_requests w1 @ [token sess],
                      abort_pending := abort_pending w1 + 1\<rparr>
              | None \<Rightarrow> abort_finish resolve w1))"

definition abort_resume :: "(string \<Rightarrow> string \<Rightarrow> string) \<Rightarrow> world \<Rightarrow> world" where
  "abort_resume resolve w = abort_finish resolve (w\<lparr>abort_pending := abort_pending w - 1\<rparr>)"

text \<open>
  \<^verbatim>\<open>start()\<close> is an async function. \<open>start_call\<close> is what runs when it is called: an
  active supervisor is joined and the call returns true; otherwise
  \<^verbatim>\<open>device.watchChannel\<close> is called and the function is suspended (\<open>None\<close>).
  \<open>start_resume\<close> is the rest, run with the answer of the device: it returns a
  boolean, or throws what the emitter throws, which rejects the promise of \<^verbatim>\<open>start()\<close>.
  \<open>keepalive_ms\<close> is the interval given to the timer.
\<close>

definition keepalive_ms :: "number \<Rightarrow> number" where
  "keepalive_ms lease = js_mul (js_sub lease (Finite 30)) (Finite 1000)"

definition start_call :: "world \<Rightarrow> bool option \<times> world" where
  "start_call w =
     (if active w then (Some True, deliver Ready (w\<lparr>use_count := use_count w + 1\<rparr>))
      else (None, w\<lparr>watch_requests := watch_requests w + 1,
                     watch_pending := watch_pending w + 1\<rparr>))"

definition start_resume :: "player_session option \<Rightarrow> world \<Rightarrow> (exn + bool) \<times> world" where
  "start_resume resp w =
     (let w1 = w\<lparr>session := resp, watch_pending := watch_pending w - 1\<rparr>
      in case resp of
           None \<Rightarrow>
             (case emit (Error ''Failed to start session'') w1 of
                None \<Rightarrow> (Inl (Unhandled_error ''Failed to start session''), w1)
              | Some w2 \<Rightarrow> (Inr False, w2))
         | Some sess \<Rightarrow>
             (let t = new_Timer (keepalive_ms (keepalive sess));
                  w2 = w1\<lparr>timer := Some t,
                          timers_created := timers_created w1 @ [t],
                          timers_running :=
                            (if paused t then timers_running w1 else timers_running w1 + 1),
                          use_count := use_count w1 + 1\<rparr>;
                  r = start_ffmpeg w2
              in (Inr (fst r), if fst r then (snd r)\<lparr>checks := checks (snd r) + 1\<rparr> else snd r)))"

text \<open>The callback \<^verbatim>\<open>check\<close> of the readiness poll, run every 100 ms while scheduled.\<close>

definition check :: "world \<Rightarrow> world" where
  "check w =
     (if existsSync (full_path w) (fs w) then
        deliver Ready (w\<lparr>active := True, checks := checks w - 1\<rparr>)
      else w)"

text \<open>The listener attached to the keepalive timer's \<^verbatim>\<open>'tick'\<close>.\<close>

definition on_tick :: "world \<Rightarrow> world" where
  "on_tick w =
     (case session w of
        None \<Rightarrow> w
      | Some sess \<Rightarrow> w\<lparr>keepalive_requests := keepalive_requests w @ [token sess]\<rparr>)"

text \<open>\<^verbatim>\<open>stop()\<close>.\<close>

definition stop :: "(string \<Rightarrow> string \<Rightarrow> string) \<Rightarrow> world \<Rightarrow> world" where
  "stop resolve w =
     (let w1 = w\<lparr>use_count := use_count w - 1\<rparr>
      in if active w1 \<and> use_count w1 \<le> 0 then abort_handler resolve w1 else w1)"

text \<open>
  The handlers that \<^verbatim>\<open>start_ffmpeg\<close> attaches to a spawned process \<open>p\<close>. A process
  that exits, or that could not be spawned, is no longer running. When the emitter
  throws in the handler of the process's \<^verbatim>\<open>'error'\<close>, the rest of the handler does not
  run and the error is uncaught.
\<close>

definition on_error :: "(string \<Rightarrow> string \<Rightarrow> string) \<Rightarrow> nat \<Rightarrow> string \<Rightarrow> world \<Rightarrow> world" where
  "on_error resolve p msg w =
     (let w0 = w\<lparr>running := removeAll p (running w)\<rparr>
      in case emit (Error msg) w0 of
           None \<Rightarrow> w0\<lparr>uncaught := uncaught w0 @ [msg]\<rparr>
         | Some w1 \<Rightarrow>
             if \<not> auto_restart w1 then abort_handler resolve w1 else snd (start_ffmpeg w1))"

definition on_exit :: "(string \<Rightarrow> string \<Rightarrow> string) \<Rightarrow> nat \<Rightarrow> int option \<Rightarrow> world \<Rightarrow> world" where
  "on_exit resolve p code w =
     (let w1 = deliver (Exit code) (w\<lparr>running := removeAll p (running w)\<rparr>)
      in if \<not> auto_restart w1 then abort_handler resolve w1 else snd (start_ffmpeg w1))"

text \<open>
  The callback given to the write of \<^verbatim>\<open>'q'\<close> in the listener of \<^verbatim>\<open>'abort'\<close>, called
  with an error.
\<close>

definition write_failed :: "string \<Rightarrow> world \<Rightarrow> world" where
  "write_failed msg w =
     (case emit (Error msg) w of
        None \<Rightarrow> w\<lparr>uncaught := uncaught w @ [msg]\<rparr>
      | Some w1 \<Rightarrow> w1)"

section \<open>The event loop\<close>

text \<open>
  Everything above runs to completion on one thread. An action is one such run: a call
  of \<^verbatim>\<open>start()\<close> or \<^verbatim>\<open>stop()\<close>, the answer of the device to a pending request, a timer
  that fires, an event of a spawned process, the callback of the write of \<^verbatim>\<open>'q'\<close>
  reporting an error, or the external tool writing a file. A callback only runs when it
  is scheduled; otherwise the action changes nothing.
\<close>

datatype action =
    Start
  | WatchReply "player_session option"
  | Poll
  | Stop
  | ProcExit nat "int option"
  | ProcError nat string
  | DeleteReply
  | TimerTick
  | StdinError string
  | FileWritten string

fun step :: "(string \<Rightarrow> string \<Rightarrow> string) \<Rightarrow> action \<Rightarrow> world \<Rightarrow> world" where
  "step resolve Start w = snd (start_call w)"
| "step resolve (WatchReply r) w = (if watch_pending w = 0 then w else snd (start_resume r w))"
| "step resolve Poll w = (if checks w = 0 then w else check w)"
| "step resolve Stop w = stop resolve w"
| "step resolve (ProcExit p code) w =
     (if p \<in> set (running w) then on_exit resolve p code w else w)"
| "step resolve (ProcError p msg) w =
     (if p \<in> set (running w) then on_error resolve p msg w else w)"
| "step resolve DeleteReply w = (if abort_pending w = 0 then w else abort_resume resolve w)"
| "step resolve TimerTick w = (if timers_running w = 0 then w else on_tick w)"
| "step resolve (StdinError msg) w = (if stdin_log w = [] then w else write_failed msg w)"
| "step resolve (FileWritten p) w = w\<lparr>fs := create p (fs w)\<rparr>"

fun run :: "(string \<Rightarrow> string \<Rightarrow> string) \<Rightarrow> action list \<Rightarrow> world \<Rightarrow> world" where
  "run resolve [] w = w"
| "run resolve (a # as) w = run resolve as (step resolve a w)"

text \<open>Every \<open>Stop\<close> of a sequence of actions finds a positive use count.\<close>

fun stops_matched :: "(string \<Rightarrow> string \<Rightarrow> string) \<Rightarrow> action list \<Rightarrow> world \<Rightarrow> bool" where
  "stops_matched resolve [] w = True"
| "stops_matched resolve (a # as) w =
     ((if a = Stop then 0 < use_count w else True) \<and> stops_matched resolve as (step resolve a w))"

text \<open>
  The process handle and the session fit together: the process that the handle names was
  spawned with the arguments made from the recorded session.
\<close>

definition handle_from_session :: "world \<Rightarrow> bool" where
  "handle_from_session w =
     (case process w of
        None \<Rightarrow> True
      | Some p \<Rightarrow>
          (case session w of
             None \<Rightarrow> True
           | Some sess \<Rightarrow>
               p < length (spawned w) \<and>
               spawned w ! p = (ffmpeg_path w, ffmpeg_args (playlist_url sess) (full_path w))))"

section \<open>The registry of supervisors\<close>

text \<open>
  \<^verbatim>\<open>JSON.stringify\<close> of a string (the quoting of ECMAScript's QuoteJSONString on
  bytes), and of the object \<^verbatim>\<open>{ server_id, channel_id }\<close>.
\<close>

definition hex_digit :: "nat \<Rightarrow> char" where
  "hex_digit n = ''0123456789abcdef'' ! (n mod 16)"

definition json_escape :: "char \<Rightarrow> string" where
  "json_escape c =
     (if c = CHR 0x08 then [CHR 0x5C, CHR ''b'']
      else if c = CHR 0x09 then [CHR 0x5C, CHR ''t'']
      else if c = CHR 0x0A then [CHR 0x5C, CHR ''n'']
      else if c = CHR 0x0C then [CHR 0x5C, CHR ''f'']
      else if c = CHR 0x0D then [CHR 0x5C, CHR ''r'']
      else if c = CHR 0x22 then [CHR 0x5C, CHR 0x22]
      else if c = CHR 0x5C then [CHR 0x5C, CHR 0x5C]
      else if (of_char c :: nat) < 32 then
        [CHR 0x5C, CHR ''u'', CHR ''0'', CHR ''0'',
         hex_digit ((of_char c :: nat) div 16), hex_digit (of_char c :: nat)]
      else [c])"

definition json_quote :: "string \<Rightarrow> string" where
  "json_quote s = [CHR 0x22] @ concat (map json_escape s) @ [CHR 0x22]"

definition stringify_key :: "string \<Rightarrow> string \<Rightarrow> string" where
  "stringify_key sid cid =
     ''{'' @ json_quote ''server_id'' @ '':'' @ json_quote sid @ '','' @
     json_quote ''channel_id'' @ '':'' @ json_quote cid @ ''}''"

text \<open>
  The fingerprint computed in \<^verbatim>\<open>LiveTranscoder.instance\<close>. The SHA-256 of Node's
  \<^verbatim>\<open>crypto\<close>, as a hexadecimal string, is the parameter \<open>sha256_hex\<close>.
\<close>

definition fingerprint :: "(string \<Rightarrow> string) \<Rightarrow> string \<Rightarrow> string \<Rightarrow> string" where
  "fingerprint sha256_hex sid cid = sha256_hex (stringify_key sid cid)"

text \<open>What \<^verbatim>\<open>device.info()\<close> answers; only the server id is read.\<close>

record info =
  server_id :: string

text \<open>
  The constructor: the output directory is wiped and created again, and \<^verbatim>\<open>full_path\<close>
  is the playlist inside it. A removal that raises makes the constructor raise.
\<close>

definition new_LiveTranscoder ::
  "(string \<Rightarrow> string \<Rightarrow> string) \<Rightarrow> string \<Rightarrow> string \<Rightarrow> nat \<Rightarrow> string \<Rightarrow> string \<Rightarrow>
   string \<Rightarrow> bool \<Rightarrow> filesystem \<Rightarrow> exn + supervisor \<times> filesystem" where
  "new_LiveTranscoder resolve ffmpeg i dev cid out fname restart f =
     (let dir = resolve out (''./'' @ i);
          obj = \<lparr>id_str = i, device = dev, channel_id = cid, output_path = out,
                 filename = fname, auto_restart = restart, ffmpeg_path = ffmpeg,
                 full_path = resolve dir (''./'' @ fname),
                 use_count = 0, active = False, session = None, process = None,
                 timer = None\<rparr>
      in if existsSync dir f then
           (case rmSync dir f of
              None \<Rightarrow> Inl Remove_failed
            | Some f1 \<Rightarrow> Inr (obj, mkdirSync dir f1))
         else Inr (obj, mkdirSync dir f))"

text \<open>
  The static map \<^verbatim>\<open>instances\<close>, from fingerprints to objects. An object is named by
  its reference, its position among the objects constructed so far.
\<close>

record registry =
  instances :: "(string \<times> nat) list"
  objects :: "supervisor list"
  disk :: filesystem

text \<open>
  \<^verbatim>\<open>LiveTranscoder.instance\<close>, from the answer of \<^verbatim>\<open>device.info()\<close> on: the lookup
  and the insertion run without a suspension between them. The optional parameters
  \<^verbatim>\<open>filename\<close> and \<^verbatim>\<open>auto_restart\<close> have their defaults.
\<close>

definition LiveTranscoder_instance ::
  "(string \<Rightarrow> string \<Rightarrow> string) \<Rightarrow> (string \<Rightarrow> string) \<Rightarrow> string \<Rightarrow> nat \<Rightarrow> info option \<Rightarrow>
   string \<Rightarrow> string \<Rightarrow> string option \<Rightarrow> bool option \<Rightarrow> registry \<Rightarrow> (exn + nat) \<times> registry" where
  "LiveTranscoder_instance resolve sha256_hex ffmpeg dev answer cid out fname restart r =
     (case answer of
        None \<Rightarrow> (Inl Failed_to_retrieve_device_information, r)
      | Some dinfo \<Rightarrow>
          (let i = fingerprint sha256_hex (server_id dinfo) cid
           in case map_of (instances r) i of
                Some ref \<Rightarrow> (Inr ref, r)
              | None \<Rightarrow>
                  (case new_LiveTranscoder resolve ffmpeg i dev cid out
                          (case fname of None \<Rightarrow> ''stream.m3u8'' | Some n \<Rightarrow> n)
                          (case restart of None \<Rightarrow> True | Some b \<Rightarrow> b) (disk r) of
                     Inl e \<Rightarrow> (Inl e, r)
                   | Inr (obj, f) \<Rightarrow>
                       (Inr (length (objects r)),
                        r\<lparr>instances := instances r @ [(i, length (objects r))],
                          objects := objects r @ [obj],
                          disk := f\<rparr>))))"

text \<open>A call of \<^verbatim>\<open>LiveTranscoder.instance\<close> by some caller, and a sequence of them.\<close>

record instance_call =
  call_device :: nat
  call_answer :: "info option"
  call_channel_id :: string
  call_output_path :: string
  call_filename :: "string option"
  call_auto_restart :: "bool option"

definition do_call ::
  "(string \<Rightarrow> string \<Rightarrow> string) \<Rightarrow> (string \<Rightarrow> string) \<Rightarrow> string \<Rightarrow> instance_call \<Rightarrow>
   registry \<Rightarrow> (exn + nat) \<times> registry" where
  "do_call resolve sha256_hex ffmpeg c r =
     LiveTranscoder_instance resolve sha256_hex ffmpeg (call_device c) (call_answer c)
       (call_channel_id c) (call_output_path c) (call_filename c) (call_auto_restart c) r"

fun do_calls ::
  "(string \<Rightarrow> string \<Rightarrow> string) \<Rightarrow> (string \<Rightarrow> string) \<Rightarrow> string \<Rightarrow> instance_call list \<Rightarrow>
   registry \<Rightarrow> registry" where
  "do_calls resolve sha256_hex ffmpeg [] r = r"
| "do_calls resolve sha256_hex ffmpeg (c # cs) r =
     do_calls resolve sha256_hex ffmpeg cs (snd (do_call resolve sha256_hex ffmpeg c r))"

text \<open>Every reference in the map names an object that was constructed.\<close>

definition registry_wf :: "registry \<Rightarrow> bool" where
  "registry_wf r = (\<forall>kv \<in> set (instances r). snd kv < length (objects r))"

section \<open>Request signing (src/tablo_api.ts)\<close>

text \<open>
  The digests come from Node's \<^verbatim>\<open>crypto\<close>: \<^verbatim>\<open>createHash('md5')\<close> is MD5 as RFC 1321
  defines it and \<^verbatim>\<open>createHmac('md5', key)\<close> is HMAC as RFC 2104 defines it, both on
  the bytes of the string and written out in lower-case hexadecimal by
  \<^verbatim>\<open>digest('hex')\<close>. A 32-bit word is a natural number below \<open>2 ^ 32\<close>, with the
  wrap-around written out.
\<close>

text \<open>The shift amounts and the constants of the 64 steps.\<close>

definition md5_s :: "nat list" where
  "md5_s = [7,12,17,22,7,12,17,22,7,12,17,22,7,12,17,22,
            5,9,14,20,5,9,14,20,5,9,14,20,5,9,14,20,
            4,11,16,23,4,11,16,23,4,11,16,23,4,11,16,23,
            6,10,15,21,6,10,15,21,6,10,15,21,6,10,15,21]"

definition md5_K :: "nat list" where
  "md5_K =
     [0xd76aa478, 0xe8c7b756, 0x242070db, 0xc1bdceee, 0xf57c0faf, 0x4787c62a,
      0xa8304613, 0xfd469501, 0x698098d8, 0x8b44f7af, 0xffff5bb1, 0x895cd7be,
      0x6b901122, 0xfd987193, 0xa679438e, 0x49b40821, 0xf61e2562, 0xc040b340,
      0x265e5a51, 0xe9b6c7aa, 0xd62f105d, 0x02441453, 0xd8a1e681, 0xe7d3fbc8,
      0x21e1cde6, 0xc33707d6, 0xf4d50d87, 0x455a14ed, 0xa9e3e905, 0xfcefa3f8,
      0x676f02d9, 0x8d2a4c8a, 0xfffa3942, 0x8771f681, 0x6d9d6122, 0xfde5380c,
      0xa4beea44, 0x4bdecfa9, 0xf6bb4b60, 0xbebfbc70, 0x289b7ec6, 0xeaa127fa,
      0xd4ef3085, 0x04881d05, 0xd9d4d039, 0xe6db99e5, 0x1fa27cf8, 0xc4ac5665,
      0xf4292244, 0x432aff97, 0xab9423a7, 0xfc93a039, 0x655b59c3, 0x8f0ccc92,
      0xffeff47d, 0x85845dd1, 0x6fa87e4f, 0xfe2ce6e0, 0xa3014314, 0x4e0811a1,
      0xf7537e82, 0xbd3af235, 0x2ad7d2bb, 0xeb86d391]"

text \<open>Rotation to the left and complement of a 32-bit word.\<close>

definition rotl32 :: "nat \<Rightarrow> nat \<Rightarrow> nat" where
  "rotl32 n x = (x * 2 ^ n) mod 4294967296 + x div 2 ^ (32 - n)"

definition not32 :: "nat \<Rightarrow> nat" where
  "not32 x = 4294967295 - x"

text \<open>
  Step \<open>i\<close> of the compression of a block \<open>M\<close> of sixteen words: the auxiliary function
  of its round, the index of the message word it reads, and the new state.
\<close>

definition md5_f :: "nat \<Rightarrow> nat \<Rightarrow> nat \<Rightarrow> nat \<Rightarrow> nat" where
  "md5_f i b c d =
     (if i < 16 then (b AND c) OR (not32 b AND d)
      else if i < 32 then (d AND b) OR (not32 d AND c)
      else if i < 48 then b XOR c XOR d
      else c XOR (b OR not32 d))"

definition md5_g :: "nat \<Rightarrow> nat" where
  "md5_g i =
     (if i < 16 then i
      else if i < 32 then (5 * i + 1) mod 16
      else if i < 48 then (3 * i + 5) mod 16
      else (7 * i) mod 16)"

fun md5_round :: "nat list \<Rightarrow> nat \<Rightarrow> nat \<times> nat \<times> nat \<times> nat \<Rightarrow> nat \<times> nat \<times> nat \<times> nat" where
  "md5_round M i (a, b, c, d) =
     (d, (b + rotl32 (md5_s ! i) ((md5_f i b c d + a + md5_K ! i + M ! md5_g i) mod 4294967296))
           mod 4294967296, b, c)"

function md5_rounds ::
  "nat list \<Rightarrow> nat \<Rightarrow> nat \<times> nat \<times> nat \<times> nat \<Rightarrow> nat \<times> nat \<times> nat \<times> nat" where
  "md5_rounds M i st = (if 64 \<le> i then st else md5_rounds M (i + 1) (md5_round M i st))"
  by pat_completeness auto
termination
  by (relation "measure (\<lambda>(M, i, st). 64 - i)") auto

declare md5_rounds.simps [simp del]

fun add4 :: "nat \<times> nat \<times> nat \<times> nat \<Rightarrow> nat \<times> nat \<times> nat \<times> nat \<Rightarrow> nat \<times> nat \<times> nat \<times> nat" where
  "add4 (a0, b0, c0, d0) (a, b, c, d) =
     ((a0 + a) mod 4294967296, (b0 + b) mod 4294967296,
      (c0 + c) mod 4294967296, (d0 + d) mod 4294967296)"

definition md5_block :: "nat \<times> nat \<times> nat \<times> nat \<Rightarrow> nat list \<Rightarrow> nat \<times> nat \<times> nat \<times> nat" where
  "md5_block st M = add4 st (md5_rounds M 0 st)"

text \<open>
  Little-endian bytes of a word and of the 64-bit length; the padding of a message to
  whole blocks; the words of the padded message; the digest of a message.
\<close>

definition le32 :: "nat \<Rightarrow> nat list" where
  "le32 n = [n mod 256, n div 256 mod 256, n div 65536 mod 256, n div 16777216 mod 256]"

definition le64 :: "nat \<Rightarrow> nat list" where
  "le64 n = le32 (n mod 4294967296) @ le32 (n div 4294967296 mod 4294967296)"

definition md5_pad :: "nat list \<Rightarrow> nat list" where
  "md5_pad m = m @ [128] @ replicate ((119 - length m mod 64) mod 64) 0 @ le64 (8 * length m)"

fun le_words :: "nat list \<Rightarrow> nat list" where
  "le_words (b0 # b1 # b2 # b3 # bs) =
     (b0 + 256 * b1 + 65536 * b2 + 16777216 * b3) # le_words bs"
| "le_words _ = []"

fun md5_blocks :: "nat \<times> nat \<times> nat \<times> nat \<Rightarrow> nat list \<Rightarrow> nat \<times> nat \<times> nat \<times> nat" where
  "md5_blocks st [] = st"
| "md5_blocks st (w # ws) = md5_blocks (md5_block st (take 16 (w # ws))) (drop 16 (w # ws))"

fun digest_bytes :: "nat \<times> nat \<times> nat \<times> nat \<Rightarrow> nat list" where
  "digest_bytes (a, b, c, d) = le32 a @ le32 b @ le32 c @ le32 d"

definition md5_bytes :: "nat list \<Rightarrow> nat list" where
  "md5_bytes m = digest_bytes (md5_blocks (0x67452301, 0xefcdab89, 0x98badcfe, 0x10325476)
                        (le_words (md5_pad m)))"

text \<open>
  \<^verbatim>\<open>digest('hex')\<close>, the bytes of a string (a character is a byte), and
  \<^verbatim>\<open>createHash('md5').update(s).digest('hex')\<close>.
\<close>

definition hex_of_bytes :: "nat list \<Rightarrow> string" where
  "hex_of_bytes bs = concat (map (\<lambda>b. [hex_digit (b div 16), hex_digit b]) bs)"

definition utf8 :: "string \<Rightarrow> nat list" where
  "utf8 s = map of_char s"

definition md5_hex :: "string \<Rightarrow> string" where
  "md5_hex s = hex_of_bytes (md5_bytes (utf8 s))"

text \<open>HMAC: the key is hashed if longer than a block, and padded with zeros to a block.\<close>

definition hmac_key :: "nat list \<Rightarrow> nat list" where
  "hmac_key key = (if 64 < length key then md5_bytes key else key)"

definition hmac_block :: "nat list \<Rightarrow> nat list" where
  "hmac_block key = hmac_key key @ replicate (64 - length (hmac_key key)) 0"

definition hmac_md5_bytes :: "nat list \<Rightarrow> nat list \<Rightarrow> nat list" where
  "hmac_md5_bytes key msg =
     md5_bytes (map (\<lambda>b. b XOR 0x5c) (hmac_block key) @
                md5_bytes (map (\<lambda>b. b XOR 0x36) (hmac_block key) @ msg))"

definition hmac_md5_hex :: "string \<Rightarrow> string \<Rightarrow> string" where
  "hmac_md5_hex key msg = hex_of_bytes (hmac_md5_bytes (utf8 key) (utf8 msg))"

text \<open>\<^verbatim>\<open>String.prototype.toUpperCase\<close>, on the ASCII letters.\<close>

definition upper_char :: "char \<Rightarrow> char" where
  "upper_char c =
     (case map_of (zip ''abcdefghijklmnopqrstuvwxyz'' ''ABCDEFGHIJKLMNOPQRSTUVWXYZ'') c of
        None \<Rightarrow> c
      | Some u \<Rightarrow> u)"

definition toUpperCase :: "string \<Rightarrow> string" where
  "toUpperCase s = map upper_char s"

record credentials =
  access_key :: string
  secret_key :: string

record auth_headers =
  Authorization :: string
  Date :: string

text \<open>
  \<^verbatim>\<open>generateAuthHeader\<close> (src/tablo_api.ts). The clock reading
  \<^verbatim>\<open>(new Date()).toUTCString()\<close> is the parameter \<open>date\<close>; the body is optional and
  defaults to the empty string, and an empty body is not hashed.
\<close>

definition generateAuthHeader ::
  "string \<Rightarrow> string \<Rightarrow> string \<Rightarrow> string option \<Rightarrow> credentials \<Rightarrow> auth_headers" where
  "generateAuthHeader date method path body_arg keys =
     (let body = (case body_arg of None \<Rightarrow> [] | Some b \<Rightarrow> b);
          body_hash = (if body \<noteq> [] then md5_hex body else []);
          message = method @ [CHR 0x0A] @ path @ [CHR 0x0A] @ body_hash @ [CHR 0x0A] @ date;
          hmac_signature = toUpperCase (hmac_md5_hex (secret_key keys) message)
      in \<lparr>Authorization = ''tablo:'' @ access_key keys @ '':'' @ hmac_signature,
          Date = date\<rparr>)"

text \<open>
  The headers as the specification's formula gives them, with the body always hashed
  and the digests written as the code writes them.
\<close>

definition spec_auth_header ::
  "string \<Rightarrow> string \<Rightarrow> string \<Rightarrow> string \<Rightarrow> credentials \<Rightarrow> auth_headers" where
  "spec_auth_header date method path body keys =
     \<lparr>Authorization = ''tablo:'' @ access_key keys @ '':'' @
        toUpperCase (hmac_md5_hex (secret_key keys)
          (method @ [CHR 0x0A] @ path @ [CHR 0x0A] @ md5_hex body @ [CHR 0x0A] @ date)),
      Date = date\<rparr>"

section \<open>Examples\<close>

text \<open>
  A path joined the way \<^verbatim>\<open>path.resolve\<close> joins an absolute directory and a relative
  \<^verbatim>\<open>./name\<close>, a supervisor as its constructor leaves it, the world around it before
  anything has happened (no listener is attached), and a session with a lease of 60
  seconds.
\<close>

definition join_path :: "string \<Rightarrow> string \<Rightarrow> string" where
  "join_path d n = d @ ''/'' @ drop 2 n"

definition fresh_supervisor :: supervisor where
  "fresh_supervisor =
     \<lparr>id_str = ''f00d'', device = 0, channel_id = ''C1'', output_path = ''/streams'',
      filename = ''stream.m3u8'', auto_restart = True, ffmpeg_path = ''ffmpeg'',
      full_path = ''/streams/f00d/stream.m3u8'',
      use_count = 0, active = False, session = None, process = None, timer = None\<rparr>"

definition world_of :: "supervisor \<Rightarrow> filesystem \<Rightarrow> world" where
  "world_of s f =
     \<lparr>id_str = id_str s, device = device s, channel_id = channel_id s,
      output_path = output_path s, filename = filename s, auto_restart = auto_restart s,
      ffmpeg_path = ffmpeg_path s, full_path = full_path s, use_count = use_count s,
      active = active s, session = session s, process = process s, timer = timer s,
      fs = f, spawned = [], running = [], killed = [], stdin_log = [],
      watch_requests = 0, watch_pending = 0, delete_requests = [], abort_pending = 0,
      keepalive_requests = [], timers_created = [], timers_running = 0, checks = 0,
      error_listeners = 0, error_once = 0, emitted = [], uncaught = []\<rparr>"

definition fresh_world :: world where
  "fresh_world = world_of fresh_supervisor \<lparr>paths = [''/streams/f00d''], undeletable = []\<rparr>"

definition session60 :: player_session where
  "session60 = \<lparr>token = ''t1'', expires = 0, keepalive = Finite 60,
                 playlist_url = ''http://10.0.0.2:8887/stream/pl.m3u8?t1''\<rparr>"

text \<open>
  The same world with one listener for \<^verbatim>\<open>'error'\<close> attached to the supervisor, and a
  second session, with another playlist URL.
\<close>

definition listening_world :: world where
  "listening_world = fresh_world\<lparr>error_listeners := 1\<rparr>"

definition session61 :: player_session where
  "session61 = \<lparr>token = ''t2'', expires = 0, keepalive = Finite 60,
                 playlist_url = ''http://10.0.0.2:8887/stream/pl.m3u8?t2''\<rparr>"

text \<open>
  A filesystem on which the output directory cannot be removed; the actions that make
  the supervisor active, and a whole cycle with the teardown; an empty registry and two
  calls of \<^verbatim>\<open>LiveTranscoder.instance\<close>.
\<close>

definition busy_world :: world where
  "busy_world =
     fresh_world\<lparr>fs := \<lparr>paths = [''/streams/f00d''], undeletable = [''/streams/f00d'']\<rparr>\<rparr>"

definition activate :: "action list" where
  "activate = [Start, WatchReply (Some session60),
               FileWritten ''/streams/f00d/stream.m3u8'', Poll]"

definition cycle :: "action list" where
  "cycle = activate @ [Stop, DeleteReply]"

definition empty_registry :: registry where
  "empty_registry = \<lparr>instances = [], objects = [], disk = \<lparr>paths = [], undeletable = []\<rparr>\<rparr>"

definition call_D1_C1 :: instance_call where
  "call_D1_C1 = \<lparr>call_device = 0, call_answer = Some \<lparr>server_id = ''D1''\<rparr>,
                  call_channel_id = ''C1'', call_output_path = ''/streams'',
                  call_filename = None, call_auto_restart = None\<rparr>"

definition call_D1_C2 :: instance_call where
  "call_D1_C2 = call_D1_C1\<lparr>call_channel_id := ''C2''\<rparr>"

text \<open>Credentials and a timestamp for a signed request.\<close>

definition keys0 :: credentials where
  "keys0 = \<lparr>access_key = ''ak'', secret_key = ''sk''\<rparr>"

definition date0 :: string where
  "date0 = ''Tue, 03 Nov 2026 00:00:00 GMT''"

section \<open>Theorems\<close>

subsection \<open>Rounding\<close>

text \<open>
  Rounding keeps the sign: a rational of at least the smallest positive double rounds to
  a double of at least that, or to infinity, and a rational that is not positive rounds
  to a double that is not positive. An integer below \<open>2 ^ 53\<close> in absolute value is
  rounded to itself, and every finite double is an integer multiple of \<open>2 ^ - 1074\<close>.
\<close>

lemmas num_eval = bit_length.simps exponent_def round_half_even_def ulp_exponent_def
  mantissa_def nearest_def round_double_def

lemma bit_length_bounds: "0 < n \<Longrightarrow> 2 ^ (bit_length n - 1) \<le> n \<and> n < 2 ^ bit_length n"
proof (induction n rule: bit_length.induct)
  case (1 n)
  show ?case
  proof (cases "n div 2 = 0")
    case True
    with "1.prems" have "n = 1" by presburger
    then show ?thesis by (simp add: bit_length.simps)
  next
    case False
    then have pos: "0 < n div 2" by simp
    from "1.IH" [OF _ pos] "1.prems"
    have ih: "2 ^ (bit_length (n div 2) - 1) \<le> n div 2" "n div 2 < 2 ^ bit_length (n div 2)"
      by simp_all
    have bl: "bit_length n = Suc (bit_length (n div 2))"
      using "1.prems" by (subst bit_length.simps) simp
    have blp: "0 < bit_length (n div 2)"
      using pos by (subst bit_length.simps) simp
    then have e: "2 ^ bit_length (n div 2) = 2 * (2::nat) ^ (bit_length (n div 2) - 1)"
      by (cases "bit_length (n div 2)") simp_all
    from ih e show ?thesis unfolding bl by simp linarith
  qed
qed

lemma bit_length_le: "n < 2 ^ k \<Longrightarrow> bit_length n \<le> k"
proof (cases "n = 0")
  case True
  then show ?thesis by (simp add: bit_length.simps)
next
  case False
  assume "n < 2 ^ k"
  moreover from False have "2 ^ (bit_length n - 1) \<le> n" using bit_length_bounds by simp
  ultimately have "(2::nat) ^ (bit_length n - 1) < 2 ^ k" by linarith
  then have "bit_length n - 1 < k" by simp
  then show ?thesis by linarith
qed

lemma exponent_le:
  assumes "0 < q"
  shows "2 powi exponent q \<le> q"
proof -
  obtain a b where ab: "quotient_of q = (a, b)" by (cases "quotient_of q")
  then have b: "0 < b" and q: "q = of_int a / of_int b"
    by (simp_all add: quotient_of_denom_pos quotient_of_div)
  with assms have a: "0 < a" by (simp add: zero_less_divide_iff)
  define la lb where "la = bit_length (nat a)" and "lb = bit_length (nat b)"
  have la: "2 ^ (la - 1) \<le> nat a" and lb: "nat b < 2 ^ lb"
    using bit_length_bounds [of "nat a"] bit_length_bounds [of "nat b"] a b
    by (simp_all add: la_def lb_def)
  have la0: "0 < la" using a unfolding la_def by (subst bit_length.simps) simp
  have "(2::rat) ^ (la - 1) \<le> of_int a"
    using la a by (metis of_nat_le_iff of_nat_numeral of_nat_power of_int_of_nat_eq int_nat_eq less_imp_le of_nat_nat)
  moreover have "of_int b \<le> (2::rat) ^ lb"
    using lb b by (metis less_imp_le of_nat_less_iff of_nat_numeral of_nat_power of_int_of_nat_eq of_nat_nat)
  ultimately have "(2::rat) ^ (la - 1) / 2 ^ lb \<le> of_int a / of_int b"
    using a b by (intro frac_le) simp_all
  moreover have "(2::rat) powi (int la - int lb - 1) = 2 ^ (la - 1) / 2 ^ lb"
  proof -
    have "int la - int lb - 1 = int (la - 1) - int lb" using la0 by linarith
    then have "(2::rat) powi (int la - int lb - 1) = 2 powi (int (la - 1) - int lb)"
      by (rule arg_cong)
    also have "\<dots> = 2 powi int (la - 1) / 2 powi int lb"
      by (rule power_int_diff) simp
    finally show ?thesis by simp
  qed
  ultimately have low: "2 powi (int la - int lb - 1) \<le> q" using q by simp
  show ?thesis
    unfolding exponent_def ab fst_conv snd_conv la_def [symmetric] lb_def [symmetric]
    using low by simp
qed

lemma round_half_even_bounds:
  "a div b \<le> round_half_even a b \<and> round_half_even a b \<le> a div b + 1"
  by (simp add: round_half_even_def)

lemma round_half_even_one: "round_half_even a 1 = a"
  by (simp add: round_half_even_def)

lemma round_half_even_nonpos: "0 < b \<Longrightarrow> a \<le> 0 \<Longrightarrow> round_half_even a b \<le> 0"
proof (cases "a = 0")
  case True
  assume "0 < b"
  with True show ?thesis by (simp add: round_half_even_def)
next
  case False
  assume b: "0 < b" and "a \<le> 0"
  with False have "a < 0" by simp
  then have "a div b < 0" using b by (rule div_neg_pos_less0)
  with round_half_even_bounds [of a b] show ?thesis by linarith
qed

lemma round_half_even_pos: "0 < b \<Longrightarrow> b \<le> a \<Longrightarrow> 1 \<le> round_half_even a b"
proof -
  assume "0 < b" and "b \<le> a"
  then have "0 < a div b" by (simp add: pos_imp_zdiv_pos_iff)
  then have "1 \<le> a div b" by linarith
  with round_half_even_bounds [of a b] show ?thesis by linarith
qed

lemma quotient_ofE:
  obtains a b where "quotient_of q = (a, b)" and "0 < b" and "q = of_int a / of_int b"
proof -
  obtain a b where ab: "quotient_of q = (a, b)" by (cases "quotient_of q")
  then have "0 < b" and "q = of_int a / of_int b"
    by (simp_all add: quotient_of_denom_pos quotient_of_div)
  with ab that show ?thesis by blast
qed

lemma mantissa_nonpos: "q \<le> 0 \<Longrightarrow> mantissa q \<le> 0"
proof -
  assume q0: "q \<le> 0"
  obtain a b where ab: "quotient_of q = (a, b)" and b: "0 < b" and q: "q = of_int a / of_int b"
    by (rule quotient_ofE)
  from q0 q b have a: "a \<le> 0" by (simp add: divide_le_0_iff)
  show ?thesis
  proof (cases "0 \<le> ulp_exponent q")
    case True
    have "round_half_even a (b * 2 ^ nat (ulp_exponent q)) \<le> 0"
      using a b by (intro round_half_even_nonpos) simp_all
    with True show ?thesis by (simp add: mantissa_def ab)
  next
    case False
    have "a * 2 ^ nat (- ulp_exponent q) \<le> 0"
      using a by (simp add: mult_le_0_iff)
    then have "round_half_even (a * 2 ^ nat (- ulp_exponent q)) b \<le> 0"
      using b by (intro round_half_even_nonpos)
    with False show ?thesis by (simp add: mantissa_def ab)
  qed
qed

lemma mantissa_pos: "2 powi ulp_exponent q \<le> q \<Longrightarrow> 1 \<le> mantissa q"
proof -
  assume le: "2 powi ulp_exponent q \<le> q"
  obtain a b where ab: "quotient_of q = (a, b)" and b: "0 < b" and q: "q = of_int a / of_int b"
    by (rule quotient_ofE)
  have rb: "0 < rat_of_int b" using b by simp
  show ?thesis
  proof (cases "0 \<le> ulp_exponent q")
    case True
    define k where "k = nat (ulp_exponent q)"
    have "(2::rat) powi ulp_exponent q = 2 ^ k"
      using True by (simp add: power_int_def k_def)
    with le q have "(2::rat) ^ k \<le> rat_of_int a / rat_of_int b" by simp
    then have "(2::rat) ^ k * rat_of_int b \<le> rat_of_int a"
      using rb by (simp add: pos_le_divide_eq)
    then have "rat_of_int (b * 2 ^ k) \<le> rat_of_int a" by (simp add: mult.commute)
    then have "b * 2 ^ k \<le> a" by (simp only: of_int_le_iff)
    then have "1 \<le> round_half_even a (b * 2 ^ k)"
      using b by (intro round_half_even_pos) simp_all
    with True show ?thesis by (simp add: mantissa_def ab k_def)
  next
    case False
    define k where "k = nat (- ulp_exponent q)"
    have "(2::rat) powi ulp_exponent q = inverse (2 ^ k)"
      using False by (simp add: power_int_def k_def power_one_over inverse_eq_divide)
    with le q have "inverse ((2::rat) ^ k) \<le> rat_of_int a / rat_of_int b" by simp
    then have "1 / (2::rat) ^ k \<le> rat_of_int a / rat_of_int b" by (simp add: inverse_eq_divide)
    then have "rat_of_int b \<le> rat_of_int a * (2::rat) ^ k"
      using rb by (simp add: field_simps)
    then have "rat_of_int b \<le> rat_of_int (a * 2 ^ k)" by simp
    then have "b \<le> a * 2 ^ k" by (simp only: of_int_le_iff)
    then have "1 \<le> round_half_even (a * 2 ^ k) b"
      using b by (intro round_half_even_pos)
    with False show ?thesis by (simp add: mantissa_def ab k_def)
  qed
qed

lemma ulp_le: "2 powi (- 1074) \<le> q \<Longrightarrow> 2 powi ulp_exponent q \<le> q"
proof -
  assume low: "(2::rat) powi (- 1074) \<le> q"
  have "(0::rat) < 2 powi (- 1074)" by (rule zero_less_power_int) simp
  with low have pos: "0 < q" by linarith
  show ?thesis
  proof (cases "exponent \<bar>q\<bar> - 52 \<le> - 1074")
    case True
    then have "ulp_exponent q = - 1074" by (simp add: ulp_exponent_def)
    with low show ?thesis by simp
  next
    case False
    then have u: "ulp_exponent q = exponent q - 52" using pos by (simp add: ulp_exponent_def)
    have "(2::rat) powi (exponent q - 52) \<le> 2 powi exponent q"
      by (rule power_int_increasing) simp_all
    also have "\<dots> \<le> q" using pos by (rule exponent_le)
    finally show ?thesis by (simp add: u)
  qed
qed

lemma ulp_exponent_ge: "- 1074 \<le> ulp_exponent q"
  by (simp add: ulp_exponent_def)

lemma round_double_pos:
  assumes "2 powi (- 1074) \<le> q"
  shows "round_double q = PlusInfinity \<or> (\<exists>r. round_double q = Finite r \<and> 2 powi (- 1074) \<le> r)"
proof -
  have tiny: "(0::rat) < 2 powi (- 1074)" by (rule zero_less_power_int) simp
  with assms have q: "q \<noteq> 0" by linarith
  have m: "1 \<le> mantissa q" using assms by (intro mantissa_pos ulp_le)
  have "(2::rat) powi (- 1074) \<le> 2 powi ulp_exponent q"
    by (rule power_int_increasing) (simp_all add: ulp_exponent_ge)
  also have "\<dots> \<le> of_int (mantissa q) * 2 powi ulp_exponent q"
  proof -
    have "1 * (2::rat) powi ulp_exponent q \<le> of_int (mantissa q) * 2 powi ulp_exponent q"
      using m by (intro mult_right_mono) simp_all
    then show ?thesis by simp
  qed
  finally have n: "2 powi (- 1074) \<le> nearest q" by (simp add: nearest_def)
  moreover have "(0::rat) < 2 ^ 1024" by simp
  ultimately have "\<not> nearest q \<le> - (2 ^ 1024)" using tiny by linarith
  with n q show ?thesis by (simp add: round_double_def del: power_int_minus)
qed

lemma round_double_nonpos:
  assumes "q \<le> 0"
  shows "round_double q = MinusInfinity \<or> (\<exists>r. round_double q = Finite r \<and> r \<le> 0)"
proof -
  have "of_int (mantissa q) * (2::rat) powi ulp_exponent q \<le> 0"
    using mantissa_nonpos [OF assms] by (simp add: mult_le_0_iff)
  then have n: "nearest q \<le> 0" by (simp add: nearest_def)
  moreover have "(0::rat) < 2 ^ 1024" by simp
  ultimately have "\<not> 2 ^ 1024 \<le> nearest q" by linarith
  with n show ?thesis by (simp add: round_double_def)
qed

lemma quotient_of_of_int: "quotient_of (rat_of_int v) = (v, 1)"
  using quotient_of_int [of v] by (simp add: Rat.of_int_def)

lemma pow_le_of_nat: "2 ^ k \<le> nat \<bar>v\<bar> \<Longrightarrow> (2::rat) ^ k \<le> \<bar>rat_of_int v\<bar>"
proof -
  assume "2 ^ k \<le> nat \<bar>v\<bar>"
  then have "int (2 ^ k) \<le> \<bar>v\<bar>" by linarith
  then have "rat_of_int (int (2 ^ k)) \<le> rat_of_int \<bar>v\<bar>" by (simp only: of_int_le_iff)
  then show ?thesis by simp
qed

lemma exponent_of_int:
  assumes "v \<noteq> 0"
  shows "exponent \<bar>rat_of_int v\<bar> = int (bit_length (nat \<bar>v\<bar>)) - 1"
proof -
  define l where "l = bit_length (nat \<bar>v\<bar>)"
  have vpos: "0 < nat \<bar>v\<bar>" using assms by simp
  have l0: "0 < l" unfolding l_def using vpos by (subst bit_length.simps) simp
  have low: "2 ^ (l - 1) \<le> nat \<bar>v\<bar>" using bit_length_bounds [OF vpos] by (simp add: l_def)
  have qa: "quotient_of \<bar>rat_of_int v\<bar> = (\<bar>v\<bar>, 1)"
    using quotient_of_of_int [of "\<bar>v\<bar>"] by simp
  have b1: "bit_length (nat 1) = 1" by (simp add: bit_length.simps)
  have "int l - 1 = int (l - 1)" using l0 by linarith
  then have "(2::rat) powi (int l - 1) = 2 powi int (l - 1)" by (rule arg_cong)
  also have "\<dots> = 2 ^ (l - 1)" by (rule power_int_of_nat)
  also have "\<dots> \<le> \<bar>rat_of_int v\<bar>" using low by (rule pow_le_of_nat)
  finally have "2 powi (int l - 1) \<le> \<bar>rat_of_int v\<bar>" .
  then show ?thesis
    unfolding exponent_def qa fst_conv snd_conv b1 l_def [symmetric] by simp
qed

lemma round_double_int:
  assumes "\<bar>v\<bar> < 2 ^ 53"
  shows "round_double (rat_of_int v) = Finite (rat_of_int v)"
proof (cases "v = 0")
  case True
  then show ?thesis by (simp add: round_double_def)
next
  case False
  define l where "l = bit_length (nat \<bar>v\<bar>)"
  have "nat \<bar>v\<bar> < 2 ^ 53" using assms by (simp add: nat_less_iff)
  then have l53: "l \<le> 53" unfolding l_def by (rule bit_length_le)
  have l0: "0 < l" unfolding l_def using False by (subst bit_length.simps) simp
  have u: "ulp_exponent (rat_of_int v) = int l - 53"
    using l0 by (simp add: ulp_exponent_def exponent_of_int [OF False] l_def)
  define k where "k = 53 - l"
  have kl: "int l - 53 = - int k" using l53 by (simp add: k_def)
  have m: "mantissa (rat_of_int v) = v * 2 ^ k"
  proof (cases "k = 0")
    case True
    then show ?thesis
      by (simp add: mantissa_def u kl quotient_of_of_int round_half_even_one)
  next
    case False
    then show ?thesis
      by (simp add: mantissa_def u kl quotient_of_of_int round_half_even_one)
  qed
  have "(2::rat) powi (- int k) = inverse (2 ^ k)"
    by (simp add: power_int_minus)
  then have n: "nearest (rat_of_int v) = rat_of_int v"
    by (simp add: nearest_def m u kl)
  have "rat_of_int \<bar>v\<bar> < rat_of_int (2 ^ 53)"
    using assms by (simp only: of_int_less_iff)
  then have "\<bar>rat_of_int v\<bar> < 2 ^ 53" by simp
  moreover have "(2::rat) ^ 53 \<le> 2 ^ 1024" by (rule power_increasing) simp_all
  ultimately have "\<bar>rat_of_int v\<bar> < 2 ^ 1024" by (rule less_le_trans)
  then have "\<not> 2 ^ 1024 \<le> rat_of_int v" "\<not> rat_of_int v \<le> - (2 ^ 1024)" by linarith+
  with False n show ?thesis by (simp add: round_double_def)
qed

lemma keepalive_ms_int:
  assumes "\<bar>n - 30\<bar> * 1000 < 2 ^ 53"
  shows "keepalive_ms (Finite (rat_of_int n)) = Finite (rat_of_int ((n - 30) * 1000))"
proof -
  have "\<bar>n - 30\<bar> \<le> \<bar>n - 30\<bar> * 1000" by simp
  from this assms have a: "\<bar>n - 30\<bar> < 2 ^ 53" by (rule le_less_trans)
  have "\<bar>(n - 30) * 1000\<bar> = \<bar>n - 30\<bar> * \<bar>1000\<bar>" by (rule abs_mult)
  then have e: "\<bar>(n - 30) * 1000\<bar> = \<bar>n - 30\<bar> * 1000" by (simp only: abs_numeral)
  have b: "\<bar>(n - 30) * 1000\<bar> < 2 ^ 53" unfolding e by (rule assms)
  have "js_sub (Finite (rat_of_int n)) (Finite 30) = round_double (rat_of_int (n - 30))"
    by simp
  also have "\<dots> = Finite (rat_of_int (n - 30))" using a by (rule round_double_int)
  finally have "keepalive_ms (Finite (rat_of_int n)) = round_double (rat_of_int ((n - 30) * 1000))"
    by (simp add: keepalive_ms_def)
  also have "\<dots> = Finite (rat_of_int ((n - 30) * 1000))" using b by (rule round_double_int)
  finally show ?thesis .
qed

lemma times_1000_pos:
  assumes "d = PlusInfinity \<or> (\<exists>r. d = Finite r \<and> 2 powi (- 1074) \<le> r)"
  shows "js_less (Finite 0) (js_mul d (Finite 1000))"
proof -
  have tiny: "(0::rat) < 2 powi (- 1074)" by (rule zero_less_power_int) simp
  from assms show ?thesis
  proof
    assume "d = PlusInfinity"
    then show ?thesis by simp
  next
    assume "\<exists>r. d = Finite r \<and> 2 powi (- 1074) \<le> r"
    then obtain r where d: "d = Finite r" and r: "2 powi (- 1074) \<le> r" by blast
    from r tiny have "r \<le> r * 1000" by linarith
    with r have "2 powi (- 1074) \<le> r * 1000" by linarith
    from round_double_pos [OF this] tiny show ?thesis
      by (auto simp: d simp del: power_int_minus)
  qed
qed

lemma times_1000_nonpos:
  assumes "d = MinusInfinity \<or> (\<exists>r. d = Finite r \<and> r \<le> 0)"
  shows "\<not> js_less (Finite 0) (js_mul d (Finite 1000))"
proof -
  from assms show ?thesis
  proof
    assume "d = MinusInfinity"
    then show ?thesis by simp
  next
    assume "\<exists>r. d = Finite r \<and> r \<le> 0"
    then obtain r where d: "d = Finite r" and r: "r \<le> 0" by blast
    from r have "r * 1000 \<le> 0" by linarith
    from round_double_nonpos [OF this] show ?thesis
      by (auto simp: d)
  qed
qed

lemma keepalive_ms_grid:
  "js_less (Finite 0) (keepalive_ms (Finite (rat_of_int z / 2 ^ 1074)))
     \<longleftrightarrow> js_less (Finite 30) (Finite (rat_of_int z / 2 ^ 1074))"
proof (cases "30 < rat_of_int z / 2 ^ 1074")
  case True
  then have "30 * 2 ^ 1074 < rat_of_int z" by (simp add: pos_less_divide_eq)
  then have "rat_of_int (30 * 2 ^ 1074) < rat_of_int z" by simp
  then have "30 * 2 ^ 1074 < z" by (simp only: of_int_less_iff)
  then have "30 * 2 ^ 1074 + 1 \<le> z" by linarith
  then have "rat_of_int (30 * 2 ^ 1074 + 1) \<le> rat_of_int z" by (simp only: of_int_le_iff)
  then have "30 * 2 ^ 1074 + 1 \<le> rat_of_int z" by simp
  then have "(30 * 2 ^ 1074 + 1) / 2 ^ 1074 \<le> rat_of_int z / 2 ^ 1074"
    by (simp add: divide_right_mono)
  then have "30 + 1 / 2 ^ 1074 \<le> rat_of_int z / 2 ^ 1074"
    by (simp add: add_divide_distrib)
  moreover have "(2::rat) powi (- 1074) = 1 / 2 ^ 1074"
    by (simp add: power_int_minus inverse_eq_divide)
  ultimately have "2 powi (- 1074) \<le> rat_of_int z / 2 ^ 1074 - 30" by linarith
  from times_1000_pos [OF round_double_pos [OF this]] True show ?thesis
    by (simp add: keepalive_ms_def)
next
  case False
  then have "rat_of_int z / 2 ^ 1074 - 30 \<le> 0" by linarith
  from times_1000_nonpos [OF round_double_nonpos [OF this]] False show ?thesis
    by (simp add: keepalive_ms_def)
qed

lemma double_grid:
  assumes "round_double q = Finite q"
  shows "\<exists>z. q = rat_of_int z / 2 ^ 1074"
proof (cases "q = 0")
  case True
  then have "q = rat_of_int 0 / 2 ^ 1074" by simp
  then show ?thesis by (rule exI)
next
  case False
  define m u where "m = mantissa q" and "u = ulp_exponent q"
  from assms False have "Finite (nearest q) = Finite q"
    by (simp only: round_double_def split: if_splits) simp_all
  then have q: "q = of_int m * 2 powi u"
    by (simp add: nearest_def m_def u_def)
  define k where "k = nat (u + 1074)"
  have "u = int k - 1074"
    using ulp_exponent_ge [of q] by (simp add: k_def u_def)
  then have "(2::rat) powi u = 2 powi (int k - 1074)" by (rule arg_cong)
  also have "\<dots> = 2 powi int k / 2 powi 1074" by (rule power_int_diff) simp
  finally have "(2::rat) powi u = 2 ^ k / 2 ^ 1074" by simp
  then have "of_int m * (2::rat) powi u = rat_of_int (m * 2 ^ k) / 2 ^ 1074" by simp
  then have "q = rat_of_int (m * 2 ^ k) / 2 ^ 1074" unfolding q .
  then show ?thesis by (rule exI)
qed

lemma keepalive_ms_positive:
  assumes "is_double x"
  shows "js_less (Finite 0) (keepalive_ms x) \<longleftrightarrow> js_less (Finite 30) x"
proof (cases x)
  case (Finite q)
  with assms have "round_double q = Finite q" by (simp add: is_double_def)
  then obtain z where "q = rat_of_int z / 2 ^ 1074" using double_grid by blast
  with Finite keepalive_ms_grid [of z] show ?thesis by simp
qed (simp_all add: keepalive_ms_def)

lemma keepalive_ms_special:
  "keepalive_ms PlusInfinity = PlusInfinity" "keepalive_ms MinusInfinity = MinusInfinity"
  "keepalive_ms NaN = NaN"
  by (simp_all add: keepalive_ms_def)

text \<open>A lease that is not an integer: 30.5 seconds give 500 ms.\<close>

lemma quotient_of_fraction: "quotient_of (rat_of_int a / rat_of_int b) = Rat.normalize (a, b)"
  using quotient_of_Fract [of a b] by (simp add: Fract_of_int_quotient)

lemma quotient_of_halves:
  "quotient_of (1 / 2) = (1, 2)" "quotient_of (61 / 2) = (61, 2)"
  using quotient_of_fraction [of 1 2] quotient_of_fraction [of 61 2]
  by (simp_all add: Rat.normalize_def)

lemma lease_with_fraction:
  "is_double (Finite (61 / 2)) \<and> keepalive_ms (Finite (61 / 2)) = Finite 500"
  by (simp add: is_double_def keepalive_ms_def num_eval quotient_of_halves)

subsection \<open>Sequences of actions\<close>

lemma run_append: "run rs (xs @ ys) w = run rs ys (run rs xs w)"
  by (induction xs arbitrary: w) simp_all

lemma run_polls_absent:
  "\<not> existsSync (full_path w) (fs w) \<Longrightarrow> run rs (replicate k Poll) w = w"
  by (induction k) (simp_all add: check_def)

lemma run_joins:
  "active w \<Longrightarrow>
   run rs (replicate n Start) w =
     w\<lparr>use_count := use_count w + int n, emitted := emitted w @ replicate n Ready\<rparr>"
proof (induction n arbitrary: w)
  case 0
  then show ?case by simp
next
  case (Suc n)
  have "active (snd (start_call w))"
    using Suc.prems by (simp add: start_call_def deliver_def)
  from Suc.IH [OF this] Suc.prems show ?case
    by (simp add: start_call_def deliver_def)
qed

lemma first_start:
  assumes "\<not> active w"
  shows "run rs [Start, WatchReply (Some sess)] w =
     w\<lparr>session := Some sess,
       watch_requests := watch_requests w + 1,
       timer := Some (new_Timer (keepalive_ms (keepalive sess))),
       timers_created := timers_created w @ [new_Timer (keepalive_ms (keepalive sess))],
       use_count := use_count w + 1,
       process := Some (length (spawned w)),
       spawned := spawned w @ [(ffmpeg_path w, ffmpeg_args (playlist_url sess) (full_path w))],
       running := running w @ [length (spawned w)],
       checks := checks w + 1\<rparr>"
  using assms
  by (simp add: start_call_def start_resume_def start_ffmpeg_def new_Timer_def Let_def)

subsection \<open>The use count\<close>

lemma start_ffmpeg_use_count: "use_count (snd (start_ffmpeg w)) = use_count w"
  by (simp add: start_ffmpeg_def split: option.split)

lemma stopped_handler_use_count: "use_count (stopped_handler rs w) = use_count w"
  by (simp add: stopped_handler_def deliver_def Let_def split: option.split)

lemma abort_handler_use_count: "use_count (abort_handler rs w) = use_count w"
  by (simp add: abort_handler_def abort_finish_def stopped_handler_use_count Let_def
      split: option.split)

lemma stop_use_count: "use_count (stop rs w) = use_count w - 1"
  by (simp add: stop_def abort_handler_use_count Let_def)

lemma step_use_count: "a \<noteq> Stop \<Longrightarrow> use_count w \<le> use_count (step rs a w)"
proof (cases a)
  case Start
  then show ?thesis by (simp add: start_call_def deliver_def)
next
  case (WatchReply r)
  then show ?thesis
    by (cases r)
      (simp_all add: start_resume_def emit_def deliver_def Let_def start_ffmpeg_use_count
        split: option.split)
next
  case Poll
  then show ?thesis by (simp add: check_def deliver_def)
next
  case Stop
  assume "a \<noteq> Stop"
  with Stop show ?thesis by simp
next
  case (ProcExit p code)
  then show ?thesis
    by (simp add: on_exit_def deliver_def Let_def abort_handler_use_count start_ffmpeg_use_count)
next
  case (ProcError p msg)
  then show ?thesis
    by (simp add: on_error_def emit_def deliver_def Let_def abort_handler_use_count
        start_ffmpeg_use_count)
next
  case DeleteReply
  then show ?thesis
    by (simp add: abort_resume_def abort_finish_def stopped_handler_use_count)
next
  case TimerTick
  then show ?thesis by (simp add: on_tick_def split: option.split)
next
  case (StdinError msg)
  then show ?thesis by (simp add: write_failed_def emit_def deliver_def)
next
  case (FileWritten p)
  then show ?thesis by simp
qed

lemma run_use_count_nonneg:
  "0 \<le> use_count w \<Longrightarrow> stops_matched rs as w \<Longrightarrow> 0 \<le> use_count (run rs as w)"
proof (induction as arbitrary: w)
  case Nil
  then show ?case by simp
next
  case (Cons a as)
  have "0 \<le> use_count (step rs a w)"
  proof (cases "a = Stop")
    case True
    with Cons.prems show ?thesis by (simp add: stop_use_count)
  next
    case False
    from step_use_count [OF this, of w rs] Cons.prems(1) show ?thesis by linarith
  qed
  with Cons.IH Cons.prems(2) show ?case by simp
qed

subsection \<open>The process handle and the session\<close>

lemma start_ffmpeg_handle: "handle_from_session (snd (start_ffmpeg w))"
  by (simp add: handle_from_session_def start_ffmpeg_def split: option.split)

lemma stopped_handler_process: "process (stopped_handler rs w) = process w"
  by (simp add: stopped_handler_def deliver_def Let_def split: option.split)

lemma abort_handler_handle: "handle_from_session (abort_handler rs w)"
  by (simp add: handle_from_session_def abort_handler_def abort_finish_def
      stopped_handler_process Let_def split: option.split)

lemma stopped_handler_handle:
  "handle_from_session w \<Longrightarrow> handle_from_session (stopped_handler rs w)"
  by (auto simp: handle_from_session_def stopped_handler_def deliver_def Let_def
      split: option.splits)

lemma deliver_handle: "handle_from_session (deliver e w) = handle_from_session w"
  by (auto simp: handle_from_session_def deliver_def split: option.splits)

lemma step_handle: "handle_from_session w \<Longrightarrow> handle_from_session (step rs a w)"
proof (cases a)
  case Start
  assume "handle_from_session w"
  with Start show ?thesis
    by (auto simp: start_call_def deliver_def handle_from_session_def split: option.splits)
next
  case (WatchReply r)
  assume h: "handle_from_session w"
  show ?thesis
  proof (cases r)
    case None
    have "session (snd (start_resume None w)) = None"
      by (simp add: start_resume_def emit_def deliver_def Let_def)
    then have "handle_from_session (snd (start_resume None w))"
      by (simp add: handle_from_session_def split: option.split)
    with WatchReply None h show ?thesis by simp
  next
    case (Some sess)
    with WatchReply h show ?thesis
      by (auto simp: start_resume_def start_ffmpeg_def handle_from_session_def Let_def
          split: option.splits)
  qed
next
  case Poll
  assume "handle_from_session w"
  with Poll show ?thesis
    by (auto simp: check_def deliver_def handle_from_session_def split: option.splits)
next
  case Stop
  assume "handle_from_session w"
  then have "handle_from_session (w\<lparr>use_count := use_count w - 1\<rparr>)"
    by (auto simp: handle_from_session_def split: option.splits)
  with Stop show ?thesis
    by (simp add: stop_def Let_def abort_handler_handle)
next
  case (ProcExit p code)
  assume "handle_from_session w"
  with ProcExit show ?thesis
    by (simp add: on_exit_def Let_def abort_handler_handle start_ffmpeg_handle)
next
  case (ProcError p msg)
  assume h: "handle_from_session w"
  then have "handle_from_session
      (w\<lparr>running := removeAll p (running w),
         uncaught := uncaught w @ [msg]\<rparr>)"
    by (auto simp: handle_from_session_def split: option.splits)
  with ProcError h show ?thesis
    by (simp add: on_error_def emit_def Let_def abort_handler_handle start_ffmpeg_handle)
next
  case DeleteReply
  assume h: "handle_from_session w"
  then have "handle_from_session (w\<lparr>abort_pending := abort_pending w - 1, active := False\<rparr>)"
    by (auto simp: handle_from_session_def split: option.splits)
  with DeleteReply h show ?thesis
    by (simp add: abort_resume_def abort_finish_def stopped_handler_handle)
next
  case TimerTick
  assume "handle_from_session w"
  with TimerTick show ?thesis
    by (auto simp: on_tick_def handle_from_session_def split: option.splits)
next
  case (StdinError msg)
  assume "handle_from_session w"
  then have "handle_from_session (w\<lparr>uncaught := uncaught w @ [msg]\<rparr>)"
    by (auto simp: handle_from_session_def split: option.splits)
  with StdinError \<open>handle_from_session w\<close> show ?thesis
    by (simp add: write_failed_def emit_def deliver_handle)
next
  case (FileWritten p)
  assume "handle_from_session w"
  with FileWritten show ?thesis
    by (auto simp: handle_from_session_def split: option.splits)
qed

lemma run_handle: "handle_from_session w \<Longrightarrow> handle_from_session (run rs as w)"
  by (induction as arbitrary: w) (simp_all add: step_handle)

lemma respawn_of_current_process:
  assumes "process w0 = None" and "w = run rs as w0"
    and "auto_restart w" and "process w = Some p" and "p \<in> set (running w)"
    and "session w = Some sess"
  shows "spawned w ! p = (ffmpeg_path w, ffmpeg_args (playlist_url sess) (full_path w))
     \<and> (let w' = step rs (ProcExit p code) w
        in process w' = Some (length (spawned w))
         \<and> spawned w' = spawned w @ [spawned w ! p]
         \<and> running w' = removeAll p (running w) @ [length (spawned w)]
         \<and> session w' = Some sess
         \<and> watch_requests w' = watch_requests w
         \<and> watch_pending w' = watch_pending w
         \<and> emitted w' = emitted w @ [Exit code])"
proof -
  have "handle_from_session w0" using assms(1) by (simp add: handle_from_session_def)
  then have "handle_from_session w" unfolding assms(2) by (rule run_handle)
  with assms(4,6) have args: "spawned w ! p = (ffmpeg_path w, ffmpeg_args (playlist_url sess) (full_path w))"
    by (simp add: handle_from_session_def)
  show ?thesis
    using assms(3-6) args by (simp add: on_exit_def start_ffmpeg_def deliver_def Let_def)
qed

subsection \<open>Removal of the output directory\<close>

lemma rmSync_removes: "rmSync d f = Some f' \<Longrightarrow> \<not> existsSync d f'"
  by (auto simp: rmSync_def existsSync_def under_def split: if_splits)

lemma stopped_handler_removes:
  assumes "resolve (output_path w) (''./'' @ id_str w) \<notin> set (undeletable (fs w))"
  shows "\<not> existsSync (resolve (output_path w) (''./'' @ id_str w)) (fs (stopped_handler resolve w))
     \<and> emitted (stopped_handler resolve w) = emitted w @ [Stopped]
     \<and> active (stopped_handler resolve w) = active w
     \<and> process (stopped_handler resolve w) = process w"
proof (cases "rmSync (resolve (output_path w) (''./'' @ id_str w)) (fs w)")
  case None
  with assms show ?thesis by (simp add: rmSync_def)
next
  case (Some f)
  from rmSync_removes [OF this] Some show ?thesis
    by (simp add: stopped_handler_def deliver_def Let_def)
qed

subsection \<open>The registry\<close>

lemma do_call_keeps:
  "map_of (instances r) k = Some v \<Longrightarrow>
   map_of (instances (snd (do_call rs sha ff c r))) k = Some v"
  by (auto simp: do_call_def LiveTranscoder_instance_def Let_def map_add_Some_iff
      split: option.splits sum.splits prod.splits)

lemma do_calls_keeps:
  "map_of (instances r) k = Some v \<Longrightarrow>
   map_of (instances (do_calls rs sha ff cs r)) k = Some v"
  by (induction cs arbitrary: r) (simp_all add: do_call_keeps)

lemma do_call_registers:
  "do_call rs sha ff c r = (Inr ref, r1) \<Longrightarrow> call_answer c = Some i \<Longrightarrow>
   map_of (instances r1) (fingerprint sha (server_id i) (call_channel_id c)) = Some ref"
  by (auto simp: do_call_def LiveTranscoder_instance_def Let_def map_add_def
      split: option.splits sum.splits prod.splits)

lemma do_call_found:
  "map_of (instances r) (fingerprint sha (server_id i) (call_channel_id c)) = Some ref \<Longrightarrow>
   call_answer c = Some i \<Longrightarrow> do_call rs sha ff c r = (Inr ref, r)"
  by (simp add: do_call_def LiveTranscoder_instance_def Let_def)

lemma do_call_wf: "registry_wf r \<Longrightarrow> registry_wf (snd (do_call rs sha ff c r))"
  by (auto simp: registry_wf_def do_call_def LiveTranscoder_instance_def Let_def less_Suc_eq
      split: option.splits sum.splits prod.splits)

lemma do_call_objects:
  "n < length (objects r) \<Longrightarrow>
   n < length (objects (snd (do_call rs sha ff c r))) \<and>
   objects (snd (do_call rs sha ff c r)) ! n = objects r ! n"
  by (auto simp: do_call_def LiveTranscoder_instance_def Let_def nth_append
      split: option.splits sum.splits prod.splits)

lemma do_calls_objects:
  "n < length (objects r) \<Longrightarrow>
   n < length (objects (do_calls rs sha ff cs r)) \<and>
   objects (do_calls rs sha ff cs r) ! n = objects r ! n"
proof (induction cs arbitrary: r)
  case Nil
  then show ?case by simp
next
  case (Cons c cs)
  from do_call_objects [OF Cons.prems, of rs sha ff c] Cons.IH [of "snd (do_call rs sha ff c r)"]
  show ?case by simp
qed

subsection \<open>Digests of the example request\<close>

lemma replicate_numeral: "replicate (numeral v) x = x # replicate (numeral v - 1) x"
  by (simp add: numeral_eq_Suc)

lemmas md5_eval = replicate_numeral md5_rounds.simps md5_s_def md5_K_def md5_f_def md5_g_def rotl32_def not32_def
  md5_block_def le32_def le64_def md5_pad_def md5_bytes_def hex_digit_def hex_of_bytes_def
  utf8_def md5_hex_def hmac_md5_bytes_def hmac_md5_hex_def hmac_key_def hmac_block_def

lemma md5_hex_empty: "md5_hex [] = ''d41d8cd98f00b204e9800998ecf8427e''"
  by (simp add: md5_eval)

lemma hmac_without_body_hash:
  "hmac_md5_hex ''sk'' (''GET'' @ [CHR 0x0A] @ ''/server/info'' @ [CHR 0x0A] @ [] @ [CHR 0x0A] @
      ''Tue, 03 Nov 2026 00:00:00 GMT'') = ''60b7c52bc328622b83826a8ea501b96a''"
  by (simp add: md5_eval)

lemma hmac_with_body_hash:
  "hmac_md5_hex ''sk'' (''GET'' @ [CHR 0x0A] @ ''/server/info'' @ [CHR 0x0A] @
      ''d41d8cd98f00b204e9800998ecf8427e'' @ [CHR 0x0A] @
      ''Tue, 03 Nov 2026 00:00:00 GMT'') = ''f17a19aa1b484f14a94c45ea2956b038''"
  by (simp add: md5_eval)

subsection \<open>The relative path\<close>

lemma replace_first_split:
  assumes "pat \<noteq> []" and "\<forall>i < length pre. \<not> occurs_at pat (pre @ pat @ post) i"
  shows "replace_first pat rep (pre @ pat @ post) = pre @ rep @ post"
  using assms
proof (induction pre)
  case Nil
  then show ?case by (cases pat) simp_all
next
  case (Cons c pre)
  have no0: "\<not> occurs_at pat ((c # pre) @ pat @ post) 0"
    using Cons.prems(2) by simp
  then have ne: "take (length pat) (c # pre @ pat @ post) \<noteq> pat"
    by (simp add: occurs_at_def)
  have "\<forall>i < length pre. \<not> occurs_at pat (pre @ pat @ post) i"
  proof (intro allI impI)
    fix i assume "i < length pre"
    then have "\<not> occurs_at pat ((c # pre) @ pat @ post) (Suc i)"
      using Cons.prems(2) by (metis Suc_less_eq length_Cons)
    then show "\<not> occurs_at pat (pre @ pat @ post) i"
      by (simp add: occurs_at_def)
  qed
  with Cons.IH Cons.prems(1) have "replace_first pat rep (pre @ pat @ post) = pre @ rep @ post"
    by simp
  with ne show ?case by simp
qed

lemma replace_first_none:
  assumes "pat \<noteq> []" and "\<forall>i. \<not> occurs_at pat s i"
  shows "replace_first pat rep s = s"
  using assms
proof (induction s)
  case Nil
  then show ?case by simp
next
  case (Cons c cs)
  have "\<not> occurs_at pat (c # cs) 0" using Cons.prems(2) by blast
  moreover have "length pat \<le> length (c # cs) \<or> take (length pat) (c # cs) \<noteq> pat"
    by (metis length_take min.cobounded2 nat_le_linear take_all)
  ultimately have ne: "take (length pat) (c # cs) \<noteq> pat"
    by (auto simp: occurs_at_def)
  have "\<forall>i. \<not> occurs_at pat cs i"
  proof
    fix i
    have "\<not> occurs_at pat (c # cs) (Suc i)" using Cons.prems(2) by blast
    then show "\<not> occurs_at pat cs i" by (simp add: occurs_at_def)
  qed
  with Cons.IH Cons.prems(1) have "replace_first pat rep cs = cs" by simp
  with ne show ?case by simp
qed

lemmas example_defs =
  fresh_world_def world_of_def fresh_supervisor_def session60_def join_path_def
  busy_world_def activate_def cycle_def listening_world_def session61_def

lemmas callback_defs =
  start_call_def start_resume_def start_ffmpeg_def check_def stop_def abort_handler_def
  abort_finish_def abort_resume_def stopped_handler_def on_exit_def on_error_def on_tick_def
  write_failed_def emit_def unhandled_def deliver_def new_Timer_def
  existsSync_def rmSync_def create_def mkdirSync_def under_def

subsection \<open>Claims\<close>

text \<open>
  C1. A supervisor is idle: use count 0, not active, no process running, no playlist on
  disk. \<^verbatim>\<open>start()\<close> is called and the device answers with a session; the poll runs
  \<open>k\<close> times in vain, the external tool writes the playlist, the poll runs once more;
  then \<^verbatim>\<open>start()\<close> is called \<open>n\<close> more times. No \<^verbatim>\<open>'ready'\<close> is emitted before the
  playlist is seen. After the \<open>n + 1\<close> calls the use count is \<open>n + 1\<close>, exactly one
  process is running, \<^verbatim>\<open>'ready'\<close> has been emitted \<open>n + 1\<close> times (once by the poll and
  once by each joining call), and the device was asked for one session only. A further
  call returns true at once, having emitted \<^verbatim>\<open>'ready'\<close>.
\<close>

theorem start_n_times:
  assumes "use_count w = 0" and "\<not> active w" and "running w = []"
    and "\<not> existsSync (full_path w) (fs w)"
  shows "emitted (run rs ([Start, WatchReply (Some sess)] @ replicate k Poll) w) = emitted w
     \<and> (let w' = run rs ([Start, WatchReply (Some sess)] @ replicate k Poll @
                          [FileWritten (full_path w), Poll] @ replicate n Start) w
        in use_count w' = int n + 1
         \<and> length (running w') = 1
         \<and> active w'
         \<and> emitted w' = emitted w @ replicate (n + 1) Ready
         \<and> watch_requests w' = watch_requests w + 1
         \<and> length (spawned w') = length (spawned w) + 1
         \<and> fst (start_call w') = Some True
         \<and> emitted (snd (start_call w')) = emitted w' @ [Ready])"
proof -
  define w1 where "w1 = run rs [Start, WatchReply (Some sess)] w"
  have w1: "w1 = w\<lparr>session := Some sess,
       watch_requests := watch_requests w + 1,
       timer := Some (new_Timer (keepalive_ms (keepalive sess))),
       timers_created := timers_created w @ [new_Timer (keepalive_ms (keepalive sess))],
       use_count := use_count w + 1,
       process := Some (length (spawned w)),
       spawned := spawned w @ [(ffmpeg_path w, ffmpeg_args (playlist_url sess) (full_path w))],
       running := running w @ [length (spawned w)],
       checks := checks w + 1\<rparr>"
    unfolding w1_def using assms(2) by (rule first_start)
  have absent: "\<not> existsSync (full_path w1) (fs w1)"
    using assms(4) by (simp add: w1)
  have polls: "run rs ([Start, WatchReply (Some sess)] @ replicate k Poll) w = w1"
    unfolding run_append w1_def [symmetric] using absent by (rule run_polls_absent)
  define w2 where "w2 = run rs [FileWritten (full_path w), Poll] w1"
  have w2: "w2 = w1\<lparr>fs := create (full_path w) (fs w), active := True,
                        checks := checks w, emitted := emitted w @ [Ready]\<rparr>"
    unfolding w2_def by (simp add: w1 check_def existsSync_def create_def deliver_def)
  have act: "active w2" by (simp add: w2)
  have all: "run rs ([Start, WatchReply (Some sess)] @ replicate k Poll @
                          [FileWritten (full_path w), Poll] @ replicate n Start) w
             = run rs (replicate n Start) w2"
    unfolding w2_def w1_def using polls by (simp only: run_append w1_def)
  show ?thesis
    unfolding all polls Let_def run_joins [OF act]
    using assms by (simp add: w2 w1 start_call_def deliver_def)
qed

theorem start_n_times_witness:
  "use_count fresh_world = 0 \<and> \<not> active fresh_world \<and> running fresh_world = []
   \<and> \<not> existsSync (full_path fresh_world) (fs fresh_world)
   \<and> use_count (run join_path ([Start, WatchReply (Some session60)] @ replicate 2 Poll @
         [FileWritten (full_path fresh_world), Poll] @ replicate 2 Start) fresh_world) = 3
   \<and> length (running (run join_path ([Start, WatchReply (Some session60)] @ replicate 2 Poll @
         [FileWritten (full_path fresh_world), Poll] @ replicate 2 Start) fresh_world)) = 1
   \<and> emitted (run join_path ([Start, WatchReply (Some session60)] @ replicate 2 Poll @
         [FileWritten (full_path fresh_world), Poll] @ replicate 2 Start) fresh_world)
       = [Ready, Ready, Ready]
   \<and> watch_requests (run join_path ([Start, WatchReply (Some session60)] @ replicate 2 Poll @
         [FileWritten (full_path fresh_world), Poll] @ replicate 2 Start) fresh_world) = 1"
proof -
  have h1: "use_count fresh_world = 0" and h2: "\<not> active fresh_world"
    and h3: "running fresh_world = []"
    and h4: "\<not> existsSync (full_path fresh_world) (fs fresh_world)"
    by (simp_all add: example_defs existsSync_def)
  have e: "emitted fresh_world = []" and r: "watch_requests fresh_world = 0"
    by (simp_all add: example_defs)
  have n: "replicate (2 + 1) Ready = [Ready, Ready, Ready]"
    by (simp add: numeral_eq_Suc)
  from start_n_times [OF h1 h2 h3 h4, of join_path session60 2 2]
  show ?thesis
    unfolding Let_def e r n using h1 h2 h3 h4 by simp
qed

text \<open>
  C2. A call of \<^verbatim>\<open>LiveTranscoder.instance\<close> for a device whose identity resolves
  returned a supervisor. Then any later call with the same server id and channel id,
  whatever its other arguments and whatever calls were made in between, computes the
  same fingerprint and returns the same object (the same reference, and the object stored
  under it is the one that was stored), and leaves the registry as it is.
\<close>

theorem same_supervisor:
  assumes "registry_wf r"
    and "do_call rs sha ff c1 r = (Inr ref, r1)"
    and "call_answer c1 = Some i1" and "call_answer c2 = Some i2"
    and "server_id i2 = server_id i1" and "call_channel_id c2 = call_channel_id c1"
  shows "fingerprint sha (server_id i2) (call_channel_id c2)
           = fingerprint sha (server_id i1) (call_channel_id c1)
     \<and> do_call rs sha ff c2 (do_calls rs sha ff cs r1) = (Inr ref, do_calls rs sha ff cs r1)
     \<and> ref < length (objects r1)
     \<and> objects (do_calls rs sha ff cs r1) ! ref = objects r1 ! ref"
proof -
  have fp: "fingerprint sha (server_id i2) (call_channel_id c2)
           = fingerprint sha (server_id i1) (call_channel_id c1)"
    using assms(5,6) by simp
  have reg: "map_of (instances r1) (fingerprint sha (server_id i1) (call_channel_id c1)) = Some ref"
    using assms(2,3) by (rule do_call_registers)
  then have "map_of (instances (do_calls rs sha ff cs r1))
               (fingerprint sha (server_id i2) (call_channel_id c2)) = Some ref"
    unfolding fp by (rule do_calls_keeps)
  then have again: "do_call rs sha ff c2 (do_calls rs sha ff cs r1)
                      = (Inr ref, do_calls rs sha ff cs r1)"
    using assms(4) by (rule do_call_found)
  have "registry_wf r1"
    using do_call_wf [OF assms(1), of rs sha ff c1] assms(2) by simp
  moreover from reg have "(fingerprint sha (server_id i1) (call_channel_id c1), ref)
      \<in> set (instances r1)"
    by (rule map_of_SomeD)
  ultimately have bound: "ref < length (objects r1)"
    unfolding registry_wf_def by fastforce
  from fp again bound do_calls_objects [OF bound] show ?thesis by simp
qed

theorem same_supervisor_witness:
  "registry_wf empty_registry
   \<and> fst (do_call join_path (\<lambda>s. s) ''ffmpeg'' call_D1_C1 empty_registry) = Inr 0
   \<and> fst (do_call join_path (\<lambda>s. s) ''ffmpeg'' call_D1_C1
        (do_calls join_path (\<lambda>s. s) ''ffmpeg'' [call_D1_C2]
           (snd (do_call join_path (\<lambda>s. s) ''ffmpeg'' call_D1_C1 empty_registry)))) = Inr 0"
proof -
  have wf: "registry_wf empty_registry" by (simp add: registry_wf_def empty_registry_def)
  obtain r1 where c: "do_call join_path (\<lambda>s. s) ''ffmpeg'' call_D1_C1 empty_registry = (Inr 0, r1)"
    by (simp add: do_call_def LiveTranscoder_instance_def new_LiveTranscoder_def Let_def
        call_D1_C1_def empty_registry_def existsSync_def)
  have a: "call_answer call_D1_C1 = Some \<lparr>server_id = ''D1''\<rparr>" by (simp add: call_D1_C1_def)
  from same_supervisor [OF wf c a a refl refl, of "[call_D1_C2]"] wf c
  show ?thesis by simp
qed

text \<open>
  C3, as the code has it. \<^verbatim>\<open>stop()\<close> takes one from the use count whatever its value,
  so a \<^verbatim>\<open>stop()\<close> at use count 0 leaves -1; no other action lowers the use count. The
  use count therefore stays non-negative along every sequence of actions in which each
  \<^verbatim>\<open>stop()\<close> is called at a positive use count.
\<close>

theorem use_count_nonneg_when_matched:
  "use_count (stop rs w) = use_count w - 1
   \<and> (a \<noteq> Stop \<longrightarrow> use_count w \<le> use_count (step rs a w))
   \<and> (0 \<le> use_count w \<and> stops_matched rs as w \<longrightarrow> 0 \<le> use_count (run rs as w))"
  using run_use_count_nonneg [of w rs as] step_use_count [of a w rs]
  by (simp add: stop_use_count)

theorem use_count_nonneg_when_matched_witness:
  "0 \<le> use_count fresh_world
   \<and> stops_matched join_path [Start, WatchReply (Some session60), Stop, Start] fresh_world
   \<and> 0 \<le> use_count (run join_path [Start, WatchReply (Some session60), Stop, Start] fresh_world)"
proof -
  have h: "0 \<le> use_count fresh_world
     \<and> stops_matched join_path [Start, WatchReply (Some session60), Stop, Start] fresh_world"
    by (simp add: example_defs callback_defs Let_def)
  with use_count_nonneg_when_matched
    [of join_path fresh_world Start "[Start, WatchReply (Some session60), Stop, Start]"]
  show ?thesis by blast
qed

text \<open>
  C3 as stated fails: \<^verbatim>\<open>stop()\<close> on a supervisor that was never started leaves the use
  count at -1.
\<close>

theorem use_count_stop_counterexample: "use_count (stop join_path fresh_world) = - 1"
  by (simp add: stop_def example_defs Let_def)

text \<open>
  C4, as the code has it. A \<^verbatim>\<open>start()\<close> that obtains a session succeeds, and the
  interval of the keepalive timer is (keepalive - 30) * 1000 milliseconds, computed on
  doubles and not clamped. For a lease that is an integer \<open>n\<close> with
  |n - 30| * 1000 below \<open>2 ^ 53\<close> the interval is the integer (n - 30) * 1000; for every
  lease that is a double, the interval is positive exactly when the lease is above 30;
  and for a lease of 60 the interval is 30000 ms.
\<close>

theorem keepalive_interval:
  "fst (start_resume (Some sess) w) = Inr True
   \<and> map_option interval (timer (snd (start_resume (Some sess) w)))
       = Some (js_mul (js_sub (keepalive sess) (Finite 30)) (Finite 1000))
   \<and> (keepalive sess = Finite (of_int n) \<and> \<bar>n - 30\<bar> * 1000 < 2 ^ 53 \<longrightarrow>
        map_option interval (timer (snd (start_resume (Some sess) w)))
          = Some (Finite (of_int ((n - 30) * 1000))))
   \<and> (is_double (keepalive sess) \<longrightarrow>
        (js_less (Finite 0) (js_mul (js_sub (keepalive sess) (Finite 30)) (Finite 1000))
           \<longleftrightarrow> js_less (Finite 30) (keepalive sess)))
   \<and> (keepalive sess = Finite 60 \<longrightarrow>
        map_option interval (timer (snd (start_resume (Some sess) w))) = Some (Finite 30000))"
proof -
  have r: "fst (start_resume (Some sess) w) = Inr True"
    by (simp add: start_resume_def start_ffmpeg_def Let_def)
  have t: "map_option interval (timer (snd (start_resume (Some sess) w)))
       = Some (keepalive_ms (keepalive sess))"
    by (simp add: start_resume_def start_ffmpeg_def new_Timer_def Let_def)
  have i: "keepalive sess = Finite (of_int n) \<and> \<bar>n - 30\<bar> * 1000 < 2 ^ 53 \<longrightarrow>
      map_option interval (timer (snd (start_resume (Some sess) w)))
        = Some (Finite (of_int ((n - 30) * 1000)))"
  proof (rule impI)
    assume a: "keepalive sess = Finite (of_int n) \<and> \<bar>n - 30\<bar> * 1000 < 2 ^ 53"
    from a have k: "keepalive sess = Finite (of_int n)" ..
    from a have b: "\<bar>n - 30\<bar> * 1000 < 2 ^ 53" ..
    show "map_option interval (timer (snd (start_resume (Some sess) w)))
        = Some (Finite (of_int ((n - 30) * 1000)))"
      unfolding t k by (simp only: keepalive_ms_int [OF b])
  qed
  have "keepalive_ms (Finite 60) = Finite 30000"
    by (simp add: keepalive_ms_def num_eval)
  then have s: "keepalive sess = Finite 60 \<longrightarrow>
      map_option interval (timer (snd (start_resume (Some sess) w))) = Some (Finite 30000)"
    unfolding t by simp
  have p: "is_double (keepalive sess) \<longrightarrow>
      (js_less (Finite 0) (keepalive_ms (keepalive sess))
         \<longleftrightarrow> js_less (Finite 30) (keepalive sess))"
    by (rule impI) (rule keepalive_ms_positive)
  from r t [unfolded keepalive_ms_def] i p [unfolded keepalive_ms_def] s
  show ?thesis by (intro conjI)
qed

theorem keepalive_interval_witness:
  "keepalive session60 = Finite (of_int 60) \<and> \<bar>60 - 30\<bar> * 1000 < (2::int) ^ 53
   \<and> is_double (keepalive session60)
   \<and> fst (start_resume (Some session60) (snd (start_call fresh_world))) = Inr True
   \<and> map_option interval
        (timer (snd (start_resume (Some session60) (snd (start_call fresh_world)))))
       = Some (Finite 30000)
   \<and> js_less (Finite 0) (js_mul (js_sub (keepalive session60) (Finite 30)) (Finite 1000))"
proof -
  have h: "keepalive session60 = Finite (of_int 60)" "\<bar>60 - 30\<bar> * 1000 < (2::int) ^ 53"
    "keepalive session60 = Finite 60" "js_less (Finite 30) (keepalive session60)"
    by (simp_all add: session60_def)
  have d: "is_double (keepalive session60)"
    by (simp add: session60_def is_double_def num_eval)
  from keepalive_interval [of session60 "snd (start_call fresh_world)" 60] h d
  show ?thesis by blast
qed

text \<open>
  C4 as stated fails. With a lease of 30 seconds the interval is 0, which is not
  positive: nothing clamps it. With a lease of \<open>2 ^ 53\<close> seconds the interval is not
  (lease - 30) * 1000, as the product is rounded. And the timer is not started: it is
  constructed paused and stays so, a tick does not happen, and no keepalive request is
  sent.
\<close>

theorem keepalive_interval_counterexample:
  "map_option interval
      (timer (snd (start_resume (Some (session60\<lparr>keepalive := Finite 30\<rparr>))
                     (snd (start_call fresh_world)))))
     = Some (Finite 0)
   \<and> \<not> js_less (Finite 0) (Finite 0)
   \<and> map_option interval
      (timer (snd (start_resume (Some (session60\<lparr>keepalive := Finite 9007199254740992\<rparr>))
                     (snd (start_call fresh_world)))))
     = Some (Finite 9007199254740962304)
   \<and> timer (run join_path activate fresh_world)
     = Some \<lparr>interval = Finite 30000, paused = True\<rparr>
   \<and> timers_running (run join_path activate fresh_world) = 0
   \<and> keepalive_requests (run join_path (activate @ [TimerTick]) fresh_world) = []"
proof -
  have a: "keepalive_ms (Finite 30) = Finite 0"
    and b: "keepalive_ms (Finite 9007199254740992) = Finite 9007199254740962304"
    and c: "keepalive_ms (Finite 60) = Finite 30000"
    by (simp_all add: keepalive_ms_def num_eval)
  show ?thesis
    by (simp add: example_defs callback_defs Let_def a b c)
qed

text \<open>
  C5, evaluated on the code. Two \<^verbatim>\<open>start()\<close> calls are made on an idle supervisor
  before the device has answered the first; both find the supervisor not active, so both
  ask the device for a session, and when the answers arrive each spawns a process. Two
  sessions were requested, two processes are running, and the handle of the first process
  has been overwritten by the second.
\<close>

theorem concurrent_starts_two_sessions:
  "watch_requests (run join_path
      [Start, Start, WatchReply (Some session60), WatchReply (Some (session60\<lparr>token := ''t2''\<rparr>))]
      fresh_world) = 2
   \<and> length (spawned (run join_path
      [Start, Start, WatchReply (Some session60), WatchReply (Some (session60\<lparr>token := ''t2''\<rparr>))]
      fresh_world)) = 2
   \<and> running (run join_path
      [Start, Start, WatchReply (Some session60), WatchReply (Some (session60\<lparr>token := ''t2''\<rparr>))]
      fresh_world) = [0, 1]
   \<and> process (run join_path
      [Start, Start, WatchReply (Some session60), WatchReply (Some (session60\<lparr>token := ''t2''\<rparr>))]
      fresh_world) = Some 1"
  by (simp add: example_defs start_call_def start_resume_def start_ffmpeg_def new_Timer_def
      Let_def)

text \<open>
  C6, as the code has it. An idle supervisor's \<^verbatim>\<open>start()\<close> asks the device for a
  session and gets none. If a listener for \<^verbatim>\<open>'error'\<close> is attached to the supervisor,
  \<^verbatim>\<open>'error'\<close> is emitted and the call returns false; if none is attached, the emitter
  throws, the call is rejected with the error and nothing is emitted. Either way the use
  count, the active flag, the process handle and the timer handle are what they were,
  nothing was spawned and no timer was constructed; the listeners attached with
  \<^verbatim>\<open>once\<close> are gone.
\<close>

theorem session_unavailable:
  assumes "\<not> active w"
  shows "fst (start_call w) = None
     \<and> watch_requests (snd (start_call w)) = watch_requests w + 1
     \<and> (let r = start_resume None (snd (start_call w))
        in (if error_listeners w = 0 \<and> error_once w = 0
            then fst r = Inl (Unhandled_error ''Failed to start session'')
               \<and> emitted (snd r) = emitted w
            else fst r = Inr False
               \<and> emitted (snd r) = emitted w @ [Error ''Failed to start session''])
         \<and> use_count (snd r) = use_count w
         \<and> active (snd r) = active w
         \<and> process (snd r) = process w
         \<and> timer (snd r) = timer w
         \<and> spawned (snd r) = spawned w
         \<and> running (snd r) = running w
         \<and> timers_created (snd r) = timers_created w
         \<and> checks (snd r) = checks w
         \<and> error_listeners (snd r) = error_listeners w
         \<and> error_once (snd r) = 0)"
  using assms
  by (simp add: start_call_def start_resume_def emit_def unhandled_def deliver_def Let_def)

theorem session_unavailable_witness:
  "\<not> active listening_world
   \<and> \<not> (error_listeners listening_world = 0 \<and> error_once listening_world = 0)
   \<and> fst (start_resume None (snd (start_call listening_world))) = Inr False
   \<and> emitted (snd (start_resume None (snd (start_call listening_world))))
       = [Error ''Failed to start session'']
   \<and> use_count (snd (start_resume None (snd (start_call listening_world)))) = 0
   \<and> process (snd (start_resume None (snd (start_call listening_world)))) = None
   \<and> timer (snd (start_resume None (snd (start_call listening_world)))) = None"
proof -
  have h: "\<not> active listening_world"
    and l: "\<not> (error_listeners listening_world = 0 \<and> error_once listening_world = 0)"
    by (simp_all add: example_defs)
  have e: "emitted listening_world = []" "use_count listening_world = 0"
    "process listening_world = None" "timer listening_world = None"
    by (simp_all add: example_defs)
  from session_unavailable [OF h] l show ?thesis
    unfolding Let_def e using h by simp
qed

text \<open>
  C6 as stated fails: on a supervisor that nobody has attached a listener for
  \<^verbatim>\<open>'error'\<close> to, \<^verbatim>\<open>start()\<close> does not return false when the device gives no session;
  it is rejected with the error, and no notification is delivered.
\<close>

theorem session_unavailable_counterexample:
  "fst (start_resume None (snd (start_call fresh_world)))
     = Inl (Unhandled_error ''Failed to start session'')
   \<and> emitted (snd (start_resume None (snd (start_call fresh_world)))) = []"
  by (simp add: example_defs start_call_def start_resume_def emit_def unhandled_def Let_def)

text \<open>
  C7, evaluated on the code. A second \<^verbatim>\<open>start()\<close> is called before the supervisor is
  active, so it asks the device for a session of its own; \<^verbatim>\<open>stop()\<close> is never called.
  In the first run the device refuses the second request after the supervisor has become
  active: the recorded session is erased, and when the process exits nothing is spawned,
  although the supervisor is active and auto-restart is on. In the second run both
  requests are granted and two processes run, the first made from the first session;
  when that process exits, the process spawned in its place is made from the second
  session, so its arguments are not those of the process that exited, and the handle of
  the second process is lost.
\<close>

theorem exit_after_second_start:
  "active (run join_path
      [Start, WatchReply (Some session60), Start,
       FileWritten ''/streams/f00d/stream.m3u8'', Poll, WatchReply None] listening_world)
   \<and> auto_restart (run join_path
      [Start, WatchReply (Some session60), Start,
       FileWritten ''/streams/f00d/stream.m3u8'', Poll, WatchReply None] listening_world)
   \<and> running (run join_path
      [Start, WatchReply (Some session60), Start,
       FileWritten ''/streams/f00d/stream.m3u8'', Poll, WatchReply None] listening_world) = [0]
   \<and> process (run join_path
      [Start, WatchReply (Some session60), Start,
       FileWritten ''/streams/f00d/stream.m3u8'', Poll, WatchReply None] listening_world) = Some 0
   \<and> session (run join_path
      [Start, WatchReply (Some session60), Start,
       FileWritten ''/streams/f00d/stream.m3u8'', Poll, WatchReply None] listening_world) = None
   \<and> running (run join_path
      [Start, WatchReply (Some session60), Start,
       FileWritten ''/streams/f00d/stream.m3u8'', Poll, WatchReply None, ProcExit 0 (Some 1)]
      listening_world) = []
   \<and> length (spawned (run join_path
      [Start, WatchReply (Some session60), Start,
       FileWritten ''/streams/f00d/stream.m3u8'', Poll, WatchReply None, ProcExit 0 (Some 1)]
      listening_world)) = 1
   \<and> emitted (run join_path
      [Start, WatchReply (Some session60), Start,
       FileWritten ''/streams/f00d/stream.m3u8'', Poll, WatchReply None, ProcExit 0 (Some 1)]
      listening_world) = [Ready, Error ''Failed to start session'', Exit (Some 1)]
   \<and> active (run join_path
      [Start, Start, WatchReply (Some session60), WatchReply (Some session61),
       FileWritten ''/streams/f00d/stream.m3u8'', Poll] fresh_world)
   \<and> running (run join_path
      [Start, Start, WatchReply (Some session60), WatchReply (Some session61),
       FileWritten ''/streams/f00d/stream.m3u8'', Poll] fresh_world) = [0, 1]
   \<and> map (\<lambda>c. snd c ! 2) (spawned (run join_path
      [Start, Start, WatchReply (Some session60), WatchReply (Some session61),
       FileWritten ''/streams/f00d/stream.m3u8'', Poll, ProcExit 0 (Some 1)] fresh_world))
     = [playlist_url session60, playlist_url session61, playlist_url session61]
   \<and> running (run join_path
      [Start, Start, WatchReply (Some session60), WatchReply (Some session61),
       FileWritten ''/streams/f00d/stream.m3u8'', Poll, ProcExit 0 (Some 1)] fresh_world) = [1, 2]
   \<and> process (run join_path
      [Start, Start, WatchReply (Some session60), WatchReply (Some session61),
       FileWritten ''/streams/f00d/stream.m3u8'', Poll, ProcExit 0 (Some 1)] fresh_world) = Some 2
   \<and> playlist_url session60 \<noteq> playlist_url session61"
  by (simp add: example_defs callback_defs ffmpeg_args_def Let_def)

text \<open>
  C8, as the code has it. An active supervisor with a process handle and a use count of
  at most 1 is stopped, and the device answers the deletion of the session if there is
  one. If the removal of the output directory does not raise, then \<^verbatim>\<open>'stopped'\<close> has
  been emitted, the directory no longer exists, and the supervisor is not active and has
  no process handle. (A removal that raises is swallowed and \<^verbatim>\<open>'stopped'\<close> is emitted
  all the same.)
\<close>

theorem teardown_removes_directory:
  assumes "active w" and "process w = Some p" and "use_count w \<le> 1" and "abort_pending w = 0"
    and "resolve (output_path w) (''./'' @ id_str w) \<notin> set (undeletable (fs w))"
  shows "let w' = run resolve [Stop, DeleteReply] w
         in emitted w' = emitted w @ [Stopped]
          \<and> \<not> existsSync (resolve (output_path w) (''./'' @ id_str w)) (fs w')
          \<and> \<not> active w' \<and> process w' = None"
proof (cases "session w")
  case None
  let ?w1 = "w\<lparr>use_count := use_count w - 1, stdin_log := stdin_log w @ [(p, ''q'')],
                       killed := (if p \<in> set (killed w) then killed w else killed w @ [p]),
                       process := None,
                       timer := None,
                       timers_running :=
                         (case timer w of
                            None \<Rightarrow> timers_running w
                          | Some t \<Rightarrow>
                              if paused t then timers_running w else timers_running w - 1),
                       active := False\<rparr>"
  have s: "stop resolve w = stopped_handler resolve ?w1"
    using assms None
    by (simp add: stop_def abort_handler_def abort_finish_def Let_def split: option.split)
  have u: "resolve (output_path ?w1) (''./'' @ id_str ?w1) \<notin> set (undeletable (fs ?w1))"
    using assms(5) by simp
  have p0: "abort_pending (stopped_handler resolve ?w1) = 0"
    using assms(4) by (simp add: stopped_handler_def deliver_def Let_def split: option.split)
  from stopped_handler_removes [of resolve ?w1] u show ?thesis
    by (simp add: s p0 Let_def)
next
  case (Some sess)
  let ?w1 = "w\<lparr>use_count := use_count w - 1, stdin_log := stdin_log w @ [(p, ''q'')],
                       killed := (if p \<in> set (killed w) then killed w else killed w @ [p]),
                       process := None,
                       timer := None,
                       timers_running :=
                         (case timer w of
                            None \<Rightarrow> timers_running w
                          | Some t \<Rightarrow>
                              if paused t then timers_running w else timers_running w - 1),
                       delete_requests := delete_requests w @ [token sess],
                       abort_pending := 0,
                       active := False\<rparr>"
  have s: "run resolve [Stop, DeleteReply] w = stopped_handler resolve ?w1"
    using assms Some
    by (simp add: stop_def abort_handler_def abort_resume_def abort_finish_def Let_def
        split: option.split)
  have u: "resolve (output_path ?w1) (''./'' @ id_str ?w1) \<notin> set (undeletable (fs ?w1))"
    using assms(5) by simp
  from stopped_handler_removes [of resolve ?w1] u show ?thesis
    unfolding s Let_def by simp
qed

theorem teardown_removes_directory_witness:
  "active (run join_path activate fresh_world)
   \<and> process (run join_path activate fresh_world) = Some 0
   \<and> use_count (run join_path activate fresh_world) \<le> 1
   \<and> abort_pending (run join_path activate fresh_world) = 0
   \<and> join_path (output_path (run join_path activate fresh_world))
        (''./'' @ id_str (run join_path activate fresh_world))
      \<notin> set (undeletable (fs (run join_path activate fresh_world)))
   \<and> emitted (run join_path [Stop, DeleteReply] (run join_path activate fresh_world))
       = [Ready, Stopped]
   \<and> \<not> existsSync ''/streams/f00d''
        (fs (run join_path [Stop, DeleteReply] (run join_path activate fresh_world)))"
proof -
  have h1: "active (run join_path activate fresh_world)"
    and h2: "process (run join_path activate fresh_world) = Some 0"
    and h3: "use_count (run join_path activate fresh_world) \<le> 1"
    and h4: "abort_pending (run join_path activate fresh_world) = 0"
    and h5: "join_path (output_path (run join_path activate fresh_world))
        (''./'' @ id_str (run join_path activate fresh_world))
      \<notin> set (undeletable (fs (run join_path activate fresh_world)))"
    and e: "emitted (run join_path activate fresh_world) = [Ready]"
    and d: "join_path (output_path (run join_path activate fresh_world))
        (''./'' @ id_str (run join_path activate fresh_world)) = ''/streams/f00d''"
    by (simp_all add: example_defs callback_defs Let_def)
  from teardown_removes_directory
    [where resolve = join_path and w = "run join_path activate fresh_world",
      OF h1 h2 h3 h4 h5, unfolded Let_def e d]
  have "emitted (run join_path [Stop, DeleteReply] (run join_path activate fresh_world))
       = [Ready, Stopped]
   \<and> \<not> existsSync ''/streams/f00d''
        (fs (run join_path [Stop, DeleteReply] (run join_path activate fresh_world)))"
    by simp
  with h1 h2 h3 h4 h5 show ?thesis by blast
qed

text \<open>
  C8 as stated fails: when the removal of the output directory raises, the error is
  swallowed, \<^verbatim>\<open>'stopped'\<close> is emitted, and the directory is still there.
\<close>

theorem teardown_counterexample:
  "emitted (run join_path cycle busy_world) = [Ready, Stopped]
   \<and> existsSync (join_path (output_path busy_world) (''./'' @ id_str busy_world))
        (fs (run join_path cycle busy_world))"
  by (simp add: cycle_def busy_world_def example_defs callback_defs Let_def)

text \<open>
  C9, as the code has it. The generated headers are Authorization = "tablo:" +
  access_key + ":" + the upper-case hexadecimal HMAC-MD5, under the secret key, of
  METHOD + "\n" + PATH + "\n" + H + "\n" + DATE, and Date = DATE, the same timestamp
  string; H is the hexadecimal MD5 of the body when the body is not empty, and the empty
  string when the body is absent or empty. For a non-empty body this is the
  specification's formula.
\<close>

theorem signed_headers:
  "generateAuthHeader date method path body keys =
     \<lparr>Authorization = ''tablo:'' @ access_key keys @ '':'' @
        toUpperCase (hmac_md5_hex (secret_key keys)
          (method @ [CHR 0x0A] @ path @ [CHR 0x0A] @
           (case body of None \<Rightarrow> [] | Some b \<Rightarrow> if b = [] then [] else md5_hex b) @
           [CHR 0x0A] @ date)),
      Date = date\<rparr>
   \<and> (\<forall>b. body = Some b \<and> b \<noteq> [] \<longrightarrow>
          generateAuthHeader date method path body keys = spec_auth_header date method path b keys)"
  by (simp add: generateAuthHeader_def spec_auth_header_def Let_def split: option.split)

theorem signed_headers_witness:
  "Some ''[]'' = Some ''[]'' \<and> ''[]'' \<noteq> []
   \<and> generateAuthHeader date0 ''POST'' ''/batch'' (Some ''[]'') keys0
       = spec_auth_header date0 ''POST'' ''/batch'' ''[]'' keys0"
proof -
  have h: "Some ''[]'' = Some ''[]'' \<and> ''[]'' \<noteq> []" by simp
  with signed_headers [of date0 "''POST''" "''/batch''" "Some ''[]''" keys0]
  show ?thesis by blast
qed

text \<open>
  C9 as stated fails for a request without a body: the code signs a message whose third
  line is empty, the formula one whose third line is the MD5 of the empty string, and the
  two signatures differ.
\<close>

theorem signed_headers_counterexample:
  "Authorization (generateAuthHeader date0 ''GET'' ''/server/info'' None keys0)
     = ''tablo:ak:60B7C52BC328622B83826A8EA501B96A''
   \<and> Authorization (spec_auth_header date0 ''GET'' ''/server/info'' [] keys0)
     = ''tablo:ak:F17A19AA1B484F14A94C45EA2956B038''
   \<and> generateAuthHeader date0 ''GET'' ''/server/info'' None keys0
     \<noteq> spec_auth_header date0 ''GET'' ''/server/info'' [] keys0"
proof -
  have c: "Authorization (generateAuthHeader date0 ''GET'' ''/server/info'' None keys0)
     = ''tablo:ak:60B7C52BC328622B83826A8EA501B96A''"
    unfolding generateAuthHeader_def Let_def keys0_def date0_def
    by (simp add: hmac_without_body_hash [simplified] toUpperCase_def upper_char_def)
  have s: "Authorization (spec_auth_header date0 ''GET'' ''/server/info'' [] keys0)
     = ''tablo:ak:F17A19AA1B484F14A94C45EA2956B038''"
    unfolding spec_auth_header_def keys0_def date0_def md5_hex_empty
    by (simp add: hmac_with_body_hash [simplified] toUpperCase_def upper_char_def)
  from c s show ?thesis by auto
qed

text \<open>
  C10. For a supervisor with a non-empty id, \<open>relative_path\<close> is the concatenation
  output_path + "/" + id + "/" + filename in which only the first occurrence of "//" is
  collapsed to "/": when the concatenation is \<open>pre @ ''//'' @ post\<close> with no occurrence
  of "//" starting inside \<open>pre\<close>, the result is \<open>pre @ ''/'' @ post\<close>, so everything after
  the first occurrence, any later "//" included, is returned as it is; when "//" does not
  occur, the concatenation is returned unchanged.
\<close>

theorem relative_path_first_only:
  assumes "id_str s \<noteq> []"
  shows "relative_path s =
           replace_first ''//'' ''/'' (output_path s @ ''/'' @ id_str s @ ''/'' @ filename s)
       \<and> (\<forall>pre post.
            output_path s @ ''/'' @ id_str s @ ''/'' @ filename s = pre @ ''//'' @ post \<and>
            (\<forall>i < length pre. \<not> occurs_at ''//'' (pre @ ''//'' @ post) i) \<longrightarrow>
            relative_path s = pre @ ''/'' @ post)
       \<and> ((\<forall>i. \<not> occurs_at ''//'' (output_path s @ ''/'' @ id_str s @ ''/'' @ filename s) i) \<longrightarrow>
            relative_path s = output_path s @ ''/'' @ id_str s @ ''/'' @ filename s)"
proof (intro conjI allI impI)
  show "relative_path s =
           replace_first ''//'' ''/'' (output_path s @ ''/'' @ id_str s @ ''/'' @ filename s)"
    using assms by (simp add: relative_path_def)
next
  fix pre post
  assume h: "output_path s @ ''/'' @ id_str s @ ''/'' @ filename s = pre @ ''//'' @ post \<and>
    (\<forall>i < length pre. \<not> occurs_at ''//'' (pre @ ''//'' @ post) i)"
  then have first: "\<forall>i < length pre. \<not> occurs_at ''//'' (pre @ ''//'' @ post) i" by blast
  have "replace_first ''//'' ''/'' (pre @ ''//'' @ post) = pre @ ''/'' @ post"
    by (rule replace_first_split [OF _ first]) simp
  with h assms show "relative_path s = pre @ ''/'' @ post"
    by (simp add: relative_path_def)
next
  assume "\<forall>i. \<not> occurs_at ''//'' (output_path s @ ''/'' @ id_str s @ ''/'' @ filename s) i"
  then have "replace_first ''//'' ''/'' (output_path s @ ''/'' @ id_str s @ ''/'' @ filename s)
             = output_path s @ ''/'' @ id_str s @ ''/'' @ filename s"
    by (intro replace_first_none) simp_all
  with assms show "relative_path s = output_path s @ ''/'' @ id_str s @ ''/'' @ filename s"
    by (simp add: relative_path_def)
qed

theorem relative_path_first_only_witness:
  "id_str (fresh_supervisor\<lparr>output_path := ''a//b/''\<rparr>) \<noteq> []
   \<and> relative_path (fresh_supervisor\<lparr>output_path := ''a//b/''\<rparr>) = ''a/b//f00d/stream.m3u8''"
proof -
  let ?s = "fresh_supervisor\<lparr>output_path := ''a//b/''\<rparr>"
  have h: "id_str ?s \<noteq> []" by (simp add: fresh_supervisor_def)
  have c: "output_path ?s @ ''/'' @ id_str ?s @ ''/'' @ filename ?s
             = ''a'' @ ''//'' @ ''b//f00d/stream.m3u8''"
    by (simp add: fresh_supervisor_def)
  have f: "\<forall>i < length ''a''. \<not> occurs_at ''//'' (''a'' @ ''//'' @ ''b//f00d/stream.m3u8'') i"
    by (simp add: occurs_at_def)
  from relative_path_first_only [OF h] c f
  have "relative_path ?s = ''a'' @ ''/'' @ ''b//f00d/stream.m3u8''" by blast
  with h show ?thesis by simp
qed

end
